theory Spec2Isabelle
  imports Main
begin

section \<open>Boards\<close>

text \<open>
  A board is the JavaScript array of nine arrays of nine numbers that \<^verbatim>\<open>sudoku.js\<close> and
  \<^verbatim>\<open>generator.js\<close> work on; 0 is an empty cell. Cells are read with \<open>g ! row ! col\<close> and
  written with \<open>setCell\<close> (the assignment \<^verbatim>\<open>grid[row][col] = v\<close>). The engine's constructor and
  every caller in the repository build 9 by 9 arrays and pass row and column indices from
  0 to 8, and the theorems below are stated for such boards and indices (\<open>wfBoard\<close>,
  \<open>row < 9\<close>, \<open>col < 9\<close>); a row index outside the array raises a TypeError in JavaScript,
  which is outside this model.
\<close>

type_synonym board = "int list list"

type_synonym marks = "int set list list"

definition wfBoard :: "'a list list \<Rightarrow> bool" where
  "wfBoard g = (length g = 9 \<and> list_all (\<lambda>r. length r = 9) g)"

definition setCell :: "'a list list \<Rightarrow> nat \<Rightarrow> nat \<Rightarrow> 'a \<Rightarrow> 'a list list" where
  "setCell g row col v = g[row := (g ! row)[col := v]]"

definition deepCopy :: "'a list list \<Rightarrow> 'a list list" where
  "deepCopy g = map (\<lambda>row. row) g"

text \<open>
  The nested iteration \<^verbatim>\<open>for row in 0..8, for col in 0..8\<close> visits the cells in this
  order.
\<close>

definition allCells :: "(nat \<times> nat) list" where
  "allCells = concat (map (\<lambda>row. map (\<lambda>col. (row, col)) [0..<9]) [0..<9])"

section \<open>The engine of sudoku.js\<close>

record sudokuEngine =
  grid :: board
  solution :: "board option"
  initialGrid :: board
  pencilMarks :: marks

record moveResult =
  success :: bool
  error :: "string option"

definition newEngine :: sudokuEngine where
  "newEngine = \<lparr>grid = replicate 9 (replicate 9 0),
                solution = Some (replicate 9 (replicate 9 0)),
                initialGrid = replicate 9 (replicate 9 0),
                pencilMarks = replicate 9 (replicate 9 {})\<rparr>"

definition wfEngine :: "sudokuEngine \<Rightarrow> bool" where
  "wfEngine s = (wfBoard (grid s) \<and> wfBoard (initialGrid s) \<and> wfBoard (pencilMarks s))"

definition isValidMove :: "sudokuEngine \<Rightarrow> nat \<Rightarrow> nat \<Rightarrow> int \<Rightarrow> bool" where
  "isValidMove s row col num =
    (if initialGrid s ! row ! col \<noteq> 0 then False
     else if \<exists>x\<in>set [0..<9]. x \<noteq> col \<and> grid s ! row ! x = num then False
     else if \<exists>x\<in>set [0..<9]. x \<noteq> row \<and> grid s ! x ! col = num then False
     else
       (let boxRow = (row div 3) * 3; boxCol = (col div 3) * 3
        in if \<exists>i\<in>set [boxRow..<boxRow + 3]. \<exists>j\<in>set [boxCol..<boxCol + 3].
                (i \<noteq> row \<or> j \<noteq> col) \<and> grid s ! i ! j = num
           then False else True))"

definition clearPencilMarksForCell :: "sudokuEngine \<Rightarrow> nat \<Rightarrow> nat \<Rightarrow> sudokuEngine" where
  "clearPencilMarksForCell s row col = s\<lparr>pencilMarks := setCell (pencilMarks s) row col {}\<rparr>"

definition clearPencilMarks :: "sudokuEngine \<Rightarrow> sudokuEngine" where
  "clearPencilMarks s = foldl (\<lambda>t (row, col). clearPencilMarksForCell t row col) s allCells"

definition removePencilMark :: "sudokuEngine \<Rightarrow> nat \<Rightarrow> nat \<Rightarrow> int \<Rightarrow> bool \<times> sudokuEngine" where
  "removePencilMark s row col num =
    (True, s\<lparr>pencilMarks := setCell (pencilMarks s) row col (pencilMarks s ! row ! col - {num})\<rparr>)"

definition addPencilMark :: "sudokuEngine \<Rightarrow> nat \<Rightarrow> nat \<Rightarrow> int \<Rightarrow> bool \<times> sudokuEngine" where
  "addPencilMark s row col num =
    (if grid s ! row ! col = 0
     then (True, s\<lparr>pencilMarks := setCell (pencilMarks s) row col (insert num (pencilMarks s ! row ! col))\<rparr>)
     else (False, s))"

definition togglePencilMark :: "sudokuEngine \<Rightarrow> nat \<Rightarrow> nat \<Rightarrow> int \<Rightarrow> bool \<times> sudokuEngine" where
  "togglePencilMark s row col num =
    (if num \<in> pencilMarks s ! row ! col
     then (False, snd (removePencilMark s row col num))
     else (True, snd (addPencilMark s row col num)))"

definition updatePencilMarks :: "sudokuEngine \<Rightarrow> nat \<Rightarrow> nat \<Rightarrow> int \<Rightarrow> sudokuEngine" where
  "updatePencilMarks s row col num =
    (let s1 = foldl (\<lambda>t x. snd (removePencilMark t row x num)) s [0..<9];
         s2 = foldl (\<lambda>t x. snd (removePencilMark t x col num)) s1 [0..<9];
         boxRow = (row div 3) * 3;
         boxCol = (col div 3) * 3
     in foldl (\<lambda>t i. foldl (\<lambda>u j. snd (removePencilMark u i j num)) t [boxCol..<boxCol + 3])
          s2 [boxRow..<boxRow + 3])"

definition placeNumber :: "sudokuEngine \<Rightarrow> nat \<Rightarrow> nat \<Rightarrow> int \<Rightarrow> moveResult \<times> sudokuEngine" where
  "placeNumber s row col num =
    (if initialGrid s ! row ! col \<noteq> 0
     then (\<lparr>success = False, error = Some ''Cannot modify given numbers''\<rparr>, s)
     else if num = 0
     then (\<lparr>success = True, error = None\<rparr>, s\<lparr>grid := setCell (grid s) row col 0\<rparr>)
     else if isValidMove s row col num
     then (let s1 = s\<lparr>grid := setCell (grid s) row col num\<rparr>;
               s2 = clearPencilMarksForCell s1 row col;
               s3 = updatePencilMarks s2 row col num
           in (\<lparr>success = True, error = None\<rparr>, s3))
     else (\<lparr>success = False, error = Some ''Invalid move''\<rparr>, s))"

definition reset :: "sudokuEngine \<Rightarrow> sudokuEngine" where
  "reset s = clearPencilMarks (s\<lparr>grid := deepCopy (initialGrid s)\<rparr>)"


definition getConflictingCells :: "sudokuEngine \<Rightarrow> nat \<Rightarrow> nat \<Rightarrow> int \<Rightarrow> (nat \<times> nat) list" where
  "getConflictingCells s row col num =
    (if grid s ! row ! col = 0 \<or> grid s ! row ! col \<noteq> num then []
     else
       (let rowConflicts = map (\<lambda>x. (row, x))
                             (filter (\<lambda>x. x \<noteq> col \<and> grid s ! row ! x = num) [0..<9]);
            colConflicts = map (\<lambda>x. (x, col))
                             (filter (\<lambda>x. x \<noteq> row \<and> grid s ! x ! col = num) [0..<9]);
            boxRow = (row div 3) * 3;
            boxCol = (col div 3) * 3;
            boxConflicts = concat (map (\<lambda>i. map (\<lambda>j. (i, j))
                             (filter (\<lambda>j. (i \<noteq> row \<or> j \<noteq> col) \<and> grid s ! i ! j = num)
                                [boxCol..<boxCol + 3])) [boxRow..<boxRow + 3])
        in rowConflicts @ colConflicts @ boxConflicts))"

text \<open>
  \<open>isValidSolution\<close> clears each filled cell, asks \<open>isValidMove\<close> and writes the value
  back; the engine it leaves behind is returned with the answer.
\<close>

fun isValidSolutionLoop :: "sudokuEngine \<Rightarrow> (nat \<times> nat) list \<Rightarrow> bool \<times> sudokuEngine" where
  "isValidSolutionLoop s [] = (True, s)"
| "isValidSolutionLoop s ((row, col) # cells) =
    (let num = grid s ! row ! col
     in if num \<noteq> 0
        then (let s1 = s\<lparr>grid := setCell (grid s) row col 0\<rparr>;
                  isValid = isValidMove s1 row col num;
                  s2 = s1\<lparr>grid := setCell (grid s1) row col num\<rparr>
              in if \<not> isValid then (False, s2) else isValidSolutionLoop s2 cells)
        else isValidSolutionLoop s cells)"

definition isValidSolution :: "sudokuEngine \<Rightarrow> bool \<times> sudokuEngine" where
  "isValidSolution s = isValidSolutionLoop s allCells"

definition isSolved :: "sudokuEngine \<Rightarrow> bool \<times> sudokuEngine" where
  "isSolved s =
    (if \<exists>cell\<in>set allCells. grid s ! fst cell ! snd cell = 0 then (False, s)
     else isValidSolution s)"

definition getPossibleValues :: "sudokuEngine \<Rightarrow> nat \<Rightarrow> nat \<Rightarrow> int list" where
  "getPossibleValues s row col =
    (if grid s ! row ! col \<noteq> 0 then []
     else filter (\<lambda>num. isValidMove s row col num) [1..9])"

text \<open>
  \<^verbatim>\<open>Math.random()\<close> is a stream of draws; \<^verbatim>\<open>Math.floor(Math.random() * n)\<close> is some
  index below \<open>n\<close>, modelled as the next draw reduced modulo \<open>n\<close>, and the stream moves on
  by one.
\<close>

type_synonym rng = "nat \<Rightarrow> nat"

definition randomBelow :: "nat \<Rightarrow> rng \<Rightarrow> nat \<times> rng" where
  "randomBelow n r = (r 0 mod n, \<lambda>k. r (Suc k))"

datatype hint = Hint (hintRow: nat) (hintCol: nat) (hintValue: int) (hintReason: string)

datatype jsError = TypeError

text \<open>
  \<open>getHint\<close> returns \<open>Inr None\<close> for JavaScript's null. Its fallback reads
  \<^verbatim>\<open>this.solution[row][col]\<close>, which raises a TypeError when the stored solution is null.
\<close>

definition getHint :: "sudokuEngine \<Rightarrow> rng \<Rightarrow> jsError + hint option" where
  "getHint s r =
    (let emptyCells = filter (\<lambda>cell. grid s ! fst cell ! snd cell = 0) allCells
     in if length emptyCells = 0 then Inr None
        else
          (case find (\<lambda>cell. length (getPossibleValues s (fst cell) (snd cell)) = 1) emptyCells of
             Some cell \<Rightarrow>
               Inr (Some (Hint (fst cell) (snd cell)
                            (getPossibleValues s (fst cell) (snd cell) ! 0)
                            ''Only one possible value''))
           | None \<Rightarrow>
               (let randomCell = emptyCells ! fst (randomBelow (length emptyCells) r)
                in case solution s of
                     None \<Rightarrow> Inl TypeError
                   | Some sol \<Rightarrow>
                       Inr (Some (Hint (fst randomCell) (snd randomCell)
                                    (sol ! fst randomCell ! snd randomCell) ''Random hint'')))))"

definition isValidMoveForGrid :: "board \<Rightarrow> nat \<Rightarrow> nat \<Rightarrow> int \<Rightarrow> bool" where
  "isValidMoveForGrid g row col num =
    (if \<exists>x\<in>set [0..<9]. g ! row ! x = num then False
     else if \<exists>x\<in>set [0..<9]. g ! x ! col = num then False
     else
       (let boxRow = (row div 3) * 3; boxCol = (col div 3) * 3
        in if \<exists>i\<in>set [boxRow..<boxRow + 3]. \<exists>j\<in>set [boxCol..<boxCol + 3]. g ! i ! j = num
           then False else True))"

text \<open>
  The backtracking solver works on one array in place. The model passes the board along:
  a call returns its answer and the board it leaves. The first argument bounds the depth of
  the recursion (one unit per nested call); \<open>None\<close> means the bound was too small, and no
  outcome of the JavaScript corresponds to it.
\<close>

fun solveRecursive :: "nat \<Rightarrow> board \<Rightarrow> (bool \<times> board) option"
  and solveTry :: "nat \<Rightarrow> board \<Rightarrow> nat \<Rightarrow> nat \<Rightarrow> int list \<Rightarrow> (bool \<times> board) option" where
  "solveRecursive 0 g = None"
| "solveRecursive (Suc n) g =
    (case find (\<lambda>cell. g ! fst cell ! snd cell = 0) allCells of
       None \<Rightarrow> Some (True, g)
     | Some cell \<Rightarrow> solveTry n g (fst cell) (snd cell) [1..9])"
| "solveTry n g row col [] = Some (False, g)"
| "solveTry n g row col (num # nums) =
    (if isValidMoveForGrid g row col num
     then (case solveRecursive n (setCell g row col num) of
             None \<Rightarrow> None
           | Some (ok, g') \<Rightarrow>
               if ok then Some (True, g')
               else solveTry n (setCell g' row col 0) row col nums)
     else solveTry n g row col nums)"

definition solvePuzzle :: "nat \<Rightarrow> board \<Rightarrow> board option option" where
  "solvePuzzle fuel g =
    (case solveRecursive fuel (deepCopy g) of
       None \<Rightarrow> None
     | Some (ok, b) \<Rightarrow> if ok then Some (Some b) else Some None)"

text \<open>
  \<open>init\<close> on an engine \<open>s\<close>; \<open>sol = None\<close> is the omitted (null) solution argument. The
  result is \<open>None\<close> only when the solver's depth bound was too small.
\<close>

definition init :: "nat \<Rightarrow> sudokuEngine \<Rightarrow> board \<Rightarrow> board option \<Rightarrow> (bool \<times> sudokuEngine) option" where
  "init fuel s puzzle sol =
    (case (case sol of
             Some b \<Rightarrow> Some (Some (deepCopy b))
           | None \<Rightarrow> solvePuzzle fuel (deepCopy puzzle)) of
       None \<Rightarrow> None
     | Some sol' \<Rightarrow>
         Some (True, clearPencilMarks
                 (s\<lparr>grid := deepCopy puzzle, initialGrid := deepCopy puzzle, solution := sol'\<rparr>)))"

section \<open>The generator of generator.js\<close>

text \<open>Fisher-Yates: \<^verbatim>\<open>for (i = length - 1; i > 0; i--)\<close> swaps \<open>i\<close> with a random \<open>j \<le> i\<close>.\<close>

fun shuffleFrom :: "nat \<Rightarrow> 'a list \<Rightarrow> rng \<Rightarrow> 'a list \<times> rng" where
  "shuffleFrom 0 xs r = (xs, r)"
| "shuffleFrom (Suc k) xs r =
    (let i = Suc k;
         j = fst (randomBelow (i + 1) r)
     in shuffleFrom k (xs[i := xs ! j, j := xs ! i]) (snd (randomBelow (i + 1) r)))"

definition shuffleArray :: "'a list \<Rightarrow> rng \<Rightarrow> 'a list \<times> rng" where
  "shuffleArray xs r = shuffleFrom (length xs - 1) xs r"

definition isValidPlacement :: "board \<Rightarrow> nat \<Rightarrow> nat \<Rightarrow> int \<Rightarrow> bool" where
  "isValidPlacement g row col num =
    (if \<exists>x\<in>set [0..<9]. g ! row ! x = num then False
     else if \<exists>x\<in>set [0..<9]. g ! x ! col = num then False
     else
       (let boxRow = (row div 3) * 3; boxCol = (col div 3) * 3
        in if \<exists>i\<in>set [boxRow..<boxRow + 3]. \<exists>j\<in>set [boxCol..<boxCol + 3]. g ! i ! j = num
           then False else True))"

text \<open>
  \<open>fillGrid\<close> is the same search with the candidates shuffled afresh in every call; the
  stream of random draws is passed along with the board. The first argument bounds the
  depth of the recursion as in \<open>solveRecursive\<close>.
\<close>

fun fillGrid :: "nat \<Rightarrow> board \<Rightarrow> rng \<Rightarrow> (bool \<times> board \<times> rng) option"
  and fillTry :: "nat \<Rightarrow> board \<Rightarrow> nat \<Rightarrow> nat \<Rightarrow> int list \<Rightarrow> rng \<Rightarrow> (bool \<times> board \<times> rng) option" where
  "fillGrid 0 g r = None"
| "fillGrid (Suc n) g r =
    (case find (\<lambda>cell. g ! fst cell ! snd cell = 0) allCells of
       None \<Rightarrow> Some (True, g, r)
     | Some cell \<Rightarrow>
         fillTry n g (fst cell) (snd cell) (fst (shuffleArray [1..9] r)) (snd (shuffleArray [1..9] r)))"
| "fillTry n g row col [] r = Some (False, g, r)"
| "fillTry n g row col (num # nums) r =
    (if isValidPlacement g row col num
     then (case fillGrid n (setCell g row col num) r of
             None \<Rightarrow> None
           | Some (ok, g', r') \<Rightarrow>
               if ok then Some (True, g', r')
               else fillTry n (setCell g' row col 0) row col nums r')
     else fillTry n g row col nums r)"

definition generateCompletePuzzle :: "nat \<Rightarrow> rng \<Rightarrow> (board \<times> rng) option" where
  "generateCompletePuzzle fuel r =
    (case fillGrid fuel (replicate 9 (replicate 9 0)) r of
       None \<Rightarrow> None
     | Some (ok, g, r') \<Rightarrow> Some (g, r'))"

definition emptyCount :: "board \<Rightarrow> nat" where
  "emptyCount puzzle = length (filter (\<lambda>cell. puzzle ! fst cell ! snd cell = 0) allCells)"

definition hasUniqueSolution :: "board \<Rightarrow> bool" where
  "hasUniqueSolution puzzle = (emptyCount puzzle \<le> 64)"

text \<open>The clue count, as \<open>getPuzzleStats\<close> counts \<open>filledCells\<close>.\<close>

definition filledCells :: "board \<Rightarrow> nat" where
  "filledCells puzzle = length (filter (\<lambda>cell. puzzle ! fst cell ! snd cell \<noteq> 0) allCells)"

text \<open>
  \<^verbatim>\<open>this.difficulty_settings[difficulty]\<close> is truthy for the four keys of the table and for
  the property names every object inherits from \<^verbatim>\<open>Object.prototype\<close>; for any other string
  it is undefined and the difficulty falls back to medium.
\<close>

definition settingsDefined :: "string \<Rightarrow> bool" where
  "settingsDefined difficulty =
    (difficulty \<in> set [''easy'', ''medium'', ''hard'', ''expert'',
       ''constructor'', ''hasOwnProperty'', ''isPrototypeOf'', ''propertyIsEnumerable'',
       ''toLocaleString'', ''toString'', ''valueOf'', ''__proto__'',
       ''__defineGetter__'', ''__defineSetter__'', ''__lookupGetter__'', ''__lookupSetter__''])"

definition targetClues :: "string \<Rightarrow> rng \<Rightarrow> int \<times> rng" where
  "targetClues difficulty r =
    (let difficulty' = (if \<not> settingsDefined difficulty then ''medium'' else difficulty);
         k = int (fst (randomBelow 6 r));
         r' = snd (randomBelow 6 r)
     in if difficulty' = ''easy'' then (k + 45, r')
        else if difficulty' = ''medium'' then (k + 35, r')
        else if difficulty' = ''hard'' then (k + 25, r')
        else (k + 17, r'))"

text \<open>One pass of the removal loop's body on a position, and the loop with its break.\<close>

definition removeStep :: "board \<times> int \<Rightarrow> nat \<times> nat \<Rightarrow> board \<times> int" where
  "removeStep st pos =
    (let puzzle = fst st; currentClues = snd st; row = fst pos; col = snd pos;
         backup = puzzle ! row ! col;
         puzzle1 = setCell puzzle row col 0
     in if hasUniqueSolution puzzle1 then (puzzle1, currentClues - 1)
        else (setCell puzzle1 row col backup, currentClues))"

fun removeLoop :: "int \<Rightarrow> (nat \<times> nat) list \<Rightarrow> board \<times> int \<Rightarrow> board \<times> int" where
  "removeLoop target [] st = st"
| "removeLoop target (pos # positions) st =
    (if snd st \<le> target then st
     else removeLoop target positions (removeStep st pos))"

definition createPuzzle :: "board \<Rightarrow> string \<Rightarrow> rng \<Rightarrow> board \<times> rng" where
  "createPuzzle sol difficulty r =
    (let puzzle = deepCopy sol;
         target = fst (targetClues difficulty r);
         r1 = snd (targetClues difficulty r);
         positions = fst (shuffleArray allCells r1);
         r2 = snd (shuffleArray allCells r1)
     in (fst (removeLoop target positions (puzzle, 81)), r2))"

section \<open>Notions used in the statements\<close>

text \<open>Two cells share a row, a column or a 3 by 3 box.\<close>

definition sameUnit :: "nat \<Rightarrow> nat \<Rightarrow> nat \<Rightarrow> nat \<Rightarrow> bool" where
  "sameUnit row col r c = (r = row \<or> c = col \<or> (r div 3 = row div 3 \<and> c div 3 = col div 3))"

text \<open>
  The cells other than \<open>(row, col)\<close> in its row, column or 3 by 3 box that hold \<open>v\<close>, in
  the specification's words; \<open>getConflictingCells\<close> is compared with this set.
\<close>

definition conflictsSpec :: "sudokuEngine \<Rightarrow> nat \<Rightarrow> nat \<Rightarrow> int \<Rightarrow> (nat \<times> nat) set" where
  "conflictsSpec s row col v =
    set (filter (\<lambda>cell. cell \<noteq> (row, col)
                   \<and> (fst cell = row \<or> snd cell = col
                      \<or> (fst cell div 3 = row div 3 \<and> snd cell div 3 = col div 3))
                   \<and> grid s ! fst cell ! snd cell = v) allCells)"

text \<open>The cells \<open>updatePencilMarks\<close> visits: the row, the column, then the box.\<close>

definition unitCells :: "nat \<Rightarrow> nat \<Rightarrow> (nat \<times> nat) list" where
  "unitCells row col =
     map (\<lambda>x. (row, x)) [0..<9] @ map (\<lambda>x. (x, col)) [0..<9]
     @ concat (map (\<lambda>i. map (\<lambda>j. (i, j)) [(col div 3) * 3..<(col div 3) * 3 + 3])
                 [(row div 3) * 3..<(row div 3) * 3 + 3])"

text \<open>An empty cell with exactly one possible value.\<close>

definition forcedCell :: "sudokuEngine \<Rightarrow> nat \<Rightarrow> nat \<Rightarrow> bool" where
  "forcedCell s row col = (grid s ! row ! col = 0 \<and> length (getPossibleValues s row col) = 1)"

text \<open>The operations a player can apply to a session, for stating what holds after any run.\<close>

datatype operation = ApplyValue nat nat int | TogglePencilMark nat nat int | Reset

fun inRange :: "operation \<Rightarrow> bool" where
  "inRange (ApplyValue row col num) = (row < 9 \<and> col < 9)"
| "inRange (TogglePencilMark row col num) = (row < 9 \<and> col < 9)"
| "inRange Reset = True"

fun applyOp :: "sudokuEngine \<Rightarrow> operation \<Rightarrow> sudokuEngine" where
  "applyOp s (ApplyValue row col num) = snd (placeNumber s row col num)"
| "applyOp s (TogglePencilMark row col num) = snd (togglePencilMark s row col num)"
| "applyOp s Reset = reset s"

text \<open>Every filled cell has an empty pencil-mark set.\<close>

definition filledUnmarked :: "sudokuEngine \<Rightarrow> bool" where
  "filledUnmarked s =
     list_all (\<lambda>cell. grid s ! fst cell ! snd cell = 0 \<or> pencilMarks s ! fst cell ! snd cell = {})
       allCells"

text \<open>
  No two different cells of one row, column or box hold the same non-zero value: the
  validity of the data model, on the cells that are filled.
\<close>

definition consistent :: "board \<Rightarrow> bool" where
  "consistent g =
     list_all (\<lambda>p. list_all (\<lambda>q. p = q \<or> \<not> sameUnit (fst p) (snd p) (fst q) (snd q)
                                  \<or> g ! fst p ! snd p = 0
                                  \<or> g ! fst p ! snd p \<noteq> g ! fst q ! snd q) allCells) allCells"

text \<open>Every cell holds 0 or a digit from 1 to 9.\<close>

definition digits :: "board \<Rightarrow> bool" where
  "digits g = list_all (\<lambda>p. 0 \<le> g ! fst p ! snd p \<and> g ! fst p ! snd p \<le> 9) allCells"

definition full :: "board \<Rightarrow> bool" where
  "full g = list_all (\<lambda>p. g ! fst p ! snd p \<noteq> 0) allCells"

text \<open>The filled cells of \<open>g\<close> agree with \<open>s\<close>.\<close>

definition agrees :: "board \<Rightarrow> board \<Rightarrow> bool" where
  "agrees g s = list_all (\<lambda>p. g ! fst p ! snd p = 0 \<or> g ! fst p ! snd p = s ! fst p ! snd p) allCells"

text \<open>Row \<open>i\<close>, column \<open>i\<close> and box \<open>i\<close> (boxes counted row by row) of a board, as lists.\<close>

definition rowOf :: "board \<Rightarrow> nat \<Rightarrow> int list" where
  "rowOf g i = map (\<lambda>k. g ! i ! k) [0..<9]"

definition colOf :: "board \<Rightarrow> nat \<Rightarrow> int list" where
  "colOf g i = map (\<lambda>k. g ! k ! i) [0..<9]"

definition boxOf :: "board \<Rightarrow> nat \<Rightarrow> int list" where
  "boxOf g i = map (\<lambda>k. g ! (3 * (i div 3) + k div 3) ! (3 * (i mod 3) + k mod 3)) [0..<9]"

definition permOf1to9 :: "int list \<Rightarrow> bool" where
  "permOf1to9 xs = (length xs = 9 \<and> distinct xs \<and> set xs = set [1..9])"

definition completeValid :: "board \<Rightarrow> bool" where
  "completeValid g =
     (wfBoard g \<and> list_all (\<lambda>i. permOf1to9 (rowOf g i) \<and> permOf1to9 (colOf g i)
                                \<and> permOf1to9 (boxOf g i)) [0..<9])"

definition emptyBoard :: board where
  "emptyBoard = replicate 9 (replicate 9 0)"

section \<open>The scenario boards\<close>

definition scenarioA :: board where
  "scenarioA =
    [[5,3,4,6,7,8,9,1,2],
     [6,7,2,1,9,5,3,4,8],
     [1,9,8,3,4,2,5,6,7],
     [8,5,9,7,6,1,4,2,3],
     [4,2,6,8,5,3,7,9,1],
     [7,1,3,9,2,4,8,5,6],
     [9,6,1,5,3,7,2,8,4],
     [2,8,7,4,1,9,6,3,5],
     [3,4,5,2,8,6,1,7,9]]"

definition scenarioB :: board where
  "scenarioB =
    [[5,3,4,6,7,8,9,1,2],
     [6,7,2,1,9,5,3,4,8],
     [1,9,8,3,4,2,5,6,7],
     [8,5,9,7,6,1,4,2,3],
     [4,2,6,8,5,3,7,9,1],
     [7,1,3,9,2,4,8,5,6],
     [9,6,1,5,3,7,2,8,4],
     [2,8,7,4,1,9,6,3,5],
     [3,4,5,2,8,6,1,7,0]]"

text \<open>The engine after \<^verbatim>\<open>init(scenarioB, scenarioA)\<close> on a fresh object.\<close>

definition sessionB :: sudokuEngine where
  "sessionB = \<lparr>grid = scenarioB, solution = Some scenarioA, initialGrid = scenarioB,
               pencilMarks = replicate 9 (replicate 9 {})\<rparr>"

definition sessionA :: sudokuEngine where
  "sessionA = \<lparr>grid = scenarioA, solution = Some scenarioA, initialGrid = scenarioA,
               pencilMarks = replicate 9 (replicate 9 {})\<rparr>"

text \<open>
  A puzzle with no solution: the only digit missing from the first row is 9, and the last
  column holds a 9 already.
\<close>

definition infeasiblePuzzle :: board where
  "infeasiblePuzzle =
    [[1,2,3,4,5,6,7,8,0],
     [0,0,0,0,0,0,0,0,9],
     [0,0,0,0,0,0,0,0,0],
     [0,0,0,0,0,0,0,0,0],
     [0,0,0,0,0,0,0,0,0],
     [0,0,0,0,0,0,0,0,0],
     [0,0,0,0,0,0,0,0,0],
     [0,0,0,0,0,0,0,0,0],
     [0,0,0,0,0,0,0,0,0]]"

text \<open>
  A session in play: the board of Scenario A with four cells open and pencil marks in three
  of them.
\<close>

definition scenarioC :: board where
  "scenarioC =
    [[0,3,4,6,7,8,9,1,2],
     [6,7,2,1,9,5,3,4,8],
     [1,9,8,3,4,2,5,6,7],
     [8,5,9,7,6,1,4,2,3],
     [4,2,6,8,5,3,7,9,1],
     [7,1,3,9,2,4,8,5,6],
     [9,6,1,5,3,7,2,8,4],
     [2,8,7,4,1,9,6,3,0],
     [3,4,5,2,8,6,1,0,0]]"

definition sessionC :: sudokuEngine where
  "sessionC = \<lparr>grid = scenarioC, solution = Some scenarioA, initialGrid = scenarioC,
               pencilMarks = setCell (setCell (setCell (replicate 9 (replicate 9 {}))
                                8 7 {7, 9}) 7 8 {5, 9}) 0 0 {5, 9}\<rparr>"

text \<open>The engine after \<^verbatim>\<open>init(scenarioC, scenarioA)\<close>, and a short run of moves on it.\<close>

definition sessionC0 :: sudokuEngine where
  "sessionC0 = \<lparr>grid = scenarioC, solution = Some scenarioA, initialGrid = scenarioC,
                pencilMarks = replicate 9 (replicate 9 {})\<rparr>"

definition playC :: "operation list" where
  "playC = [TogglePencilMark 8 7 7, TogglePencilMark 8 7 9, TogglePencilMark 8 8 9,
            ApplyValue 8 7 7, TogglePencilMark 8 7 3, ApplyValue 0 0 5, ApplyValue 0 0 0,
            TogglePencilMark 0 0 5]"

section \<open>Basic facts about boards\<close>

lemma set_allCells: "set allCells = {0..<9} \<times> {0..<9}"
  by (auto simp: allCells_def)

lemma in_allCells [simp]: "(r, c) \<in> set allCells \<longleftrightarrow> r < 9 \<and> c < 9"
  by (simp add: set_allCells)

lemma ball_allCells: "(\<forall>p\<in>set allCells. P (fst p) (snd p)) \<longleftrightarrow> (\<forall>r<9. \<forall>c<9. P r c)"
  by (fastforce simp: set_allCells)

lemma allCells_enum: "allCells = map (\<lambda>k. (k div 9, k mod 9)) [0..<81]"
  by code_simp

lemma length_allCells: "length allCells = 81"
  by (simp add: allCells_enum)

lemma allCells_nth: "k < 81 \<Longrightarrow> allCells ! k = (k div 9, k mod 9)"
  by (simp add: allCells_enum)

lemma allCells_index: "r < 9 \<Longrightarrow> c < 9 \<Longrightarrow> 9 * r + c < 81 \<and> allCells ! (9 * r + c) = (r, c)"
  by (simp add: allCells_nth)

lemma wfBoard_nth: "wfBoard g \<Longrightarrow> r < 9 \<Longrightarrow> length (g ! r) = 9"
  by (simp add: wfBoard_def list_all_length)

lemma wfBoard_length: "wfBoard g \<Longrightarrow> length g = 9"
  by (simp add: wfBoard_def)

lemma setCell_nth:
  "setCell g r c v ! r' ! c' =
     (if r' = r \<and> c' = c \<and> r < length g \<and> c < length (g ! r) then v else g ! r' ! c')"
  by (cases "r < length g"; cases "c < length (g ! r)"; cases "r' = r"; cases "c' = c")
     (simp_all add: setCell_def list_update_beyond)

lemma setCell_nth_wf:
  "wfBoard g \<Longrightarrow> r < 9 \<Longrightarrow> c < 9 \<Longrightarrow>
     setCell g r c v ! r' ! c' = (if r' = r \<and> c' = c then v else g ! r' ! c')"
  by (simp add: setCell_nth wfBoard_nth wfBoard_length)

lemma wfBoard_setCell [simp]: "wfBoard (setCell g r c v) = wfBoard g"
  by (cases "r < length g") (auto simp: wfBoard_def setCell_def list_all_length nth_list_update)

lemma setCell_restore: "setCell (setCell g r c v) r c (g ! r ! c) = g"
  by (cases "r < length g") (simp_all add: setCell_def list_update_beyond)

lemma setCell_undo: "g ! row ! col = 0 \<Longrightarrow> setCell (setCell g row col v) row col 0 = g"
  using setCell_restore [of g row col v] by simp

lemma deepCopy_id [simp]: "deepCopy g = g"
  by (simp add: deepCopy_def)

lemma board_eqI:
  assumes "wfBoard g" and "wfBoard h"
    and "\<And>r c. r < 9 \<Longrightarrow> c < 9 \<Longrightarrow> g ! r ! c = h ! r ! c"
  shows "g = h"
proof (rule nth_equalityI)
  show "length g = length h" using assms(1,2) by (simp add: wfBoard_length)
next
  fix i assume "i < length g"
  then have i: "i < 9" using assms(1) by (simp add: wfBoard_length)
  show "g ! i = h ! i"
  proof (rule nth_equalityI)
    show "length (g ! i) = length (h ! i)" using assms(1,2) i by (simp add: wfBoard_nth)
  next
    fix j assume "j < length (g ! i)"
    then have "j < 9" using assms(1) i by (simp add: wfBoard_nth)
    then show "g ! i ! j = h ! i ! j" using i assms(3) by simp
  qed
qed

lemma box_set: "set [(row div 3) * 3..<(row div 3) * 3 + 3] = {i. i div 3 = row div (3::nat)}"
  by auto

lemma box_lt9: "i div 3 = row div 3 \<Longrightarrow> row < 9 \<Longrightarrow> i < (9::nat)"
  by arith

lemma mem_concat_pairs:
  "(a, b) \<in> set (concat (map (\<lambda>i. map (\<lambda>j. (i, j)) (filter (P i) ys)) xs))
     \<longleftrightarrow> a \<in> set xs \<and> b \<in> set ys \<and> P a b"
  by auto

lemma filled_plus_empty: "filledCells p + emptyCount p = 81"
proof -
  have "filledCells p + emptyCount p = length allCells"
    unfolding filledCells_def emptyCount_def
    using sum_length_filter_compl [of "\<lambda>cell. p ! fst cell ! snd cell \<noteq> 0" allCells]
    by simp
  then show ?thesis by (simp add: length_allCells)
qed

lemma emptyCount_le: "emptyCount g \<le> 81"
  using filled_plus_empty [of g] by simp

lemma emptyCount_setCell:
  assumes "wfBoard g" and "row < 9" and "col < 9" and "g ! row ! col = 0" and "num \<noteq> 0"
  shows "emptyCount (setCell g row col num) < emptyCount g"
proof -
  let ?E = "\<lambda>cell. g ! fst cell ! snd cell = 0"
  have "filter (\<lambda>cell. setCell g row col num ! fst cell ! snd cell = 0) allCells
      = filter (\<lambda>cell. ?E cell \<and> cell \<noteq> (row, col)) allCells"
    by (rule filter_cong) (use assms in \<open>auto simp: setCell_nth_wf\<close>)
  then have eq: "filter (\<lambda>cell. setCell g row col num ! fst cell ! snd cell = 0) allCells
      = filter (\<lambda>cell. cell \<noteq> (row, col)) (filter ?E allCells)"
    by (simp only: filter_filter)
  have mem: "(row, col) \<in> set (filter ?E allCells)"
    using assms(2,3,4) by simp
  have "length (filter (\<lambda>cell. cell \<noteq> (row, col)) (filter ?E allCells)) < length (filter ?E allCells)"
    using mem by (rule length_filter_less) simp
  then show ?thesis
    unfolding emptyCount_def eq .
qed

lemma find_empty_Some:
  assumes "find (\<lambda>cell. g ! fst cell ! snd cell = 0) allCells = Some cell"
  shows "fst cell < 9 \<and> snd cell < 9 \<and> g ! fst cell ! snd cell = 0"
proof -
  have "cell \<in> set allCells \<and> g ! fst cell ! snd cell = 0"
    using assms unfolding find_Some_iff by auto
  then show ?thesis by (cases cell) simp
qed

lemma find_empty_None:
  assumes "find (\<lambda>cell. g ! fst cell ! snd cell = 0) allCells = None"
  shows "full g"
proof -
  have "\<forall>p\<in>set allCells. g ! fst p ! snd p \<noteq> 0"
    using assms unfolding find_None_iff by blast
  then show ?thesis unfolding full_def list_all_iff .
qed

lemma sameUnit_sym: "sameUnit r c r' c' = sameUnit r' c' r c"
  by (auto simp: sameUnit_def)

lemma isValidPlacement_iff:
  assumes "row < 9" and "col < 9"
  shows "isValidPlacement g row col num \<longleftrightarrow>
           (\<forall>r<9. \<forall>c<9. sameUnit row col r c \<longrightarrow> g ! r ! c \<noteq> num)"
proof -
  have box: "(\<exists>i\<in>set [(row div 3) * 3..<(row div 3) * 3 + 3].
               \<exists>j\<in>set [(col div 3) * 3..<(col div 3) * 3 + 3]. g ! i ! j = num)
         \<longleftrightarrow> (\<exists>i j. i div 3 = row div 3 \<and> j div 3 = col div 3 \<and> g ! i ! j = num)"
    unfolding box_set by blast
  have "isValidPlacement g row col num \<longleftrightarrow>
          \<not> (\<exists>x<9. g ! row ! x = num) \<and> \<not> (\<exists>x<9. g ! x ! col = num)
          \<and> \<not> (\<exists>i j. i div 3 = row div 3 \<and> j div 3 = col div 3 \<and> g ! i ! j = num)"
    unfolding isValidPlacement_def Let_def box by auto
  also have "\<dots> \<longleftrightarrow> (\<forall>r<9. \<forall>c<9. sameUnit row col r c \<longrightarrow> g ! r ! c \<noteq> num)"
    unfolding sameUnit_def using assms box_lt9 [of _ row] box_lt9 [of _ col] by blast
  finally show ?thesis .
qed

lemma isValidPlacement_nonzero:
  assumes "row < 9" and "col < 9" and "g ! row ! col = 0" and "isValidPlacement g row col num"
  shows "num \<noteq> 0"
  using assms(4) [unfolded isValidPlacement_iff [OF assms(1,2)], rule_format, of row col] assms(1,2,3)
  by (auto simp: sameUnit_def)

lemma isValidMoveForGrid_eq: "isValidMoveForGrid g row col num = isValidPlacement g row col num"
  by (simp add: isValidMoveForGrid_def isValidPlacement_def)

lemma shuffleFrom_set: "k < length xs \<Longrightarrow> set (fst (shuffleFrom k xs r)) = set xs"
proof (induction k arbitrary: xs r)
  case 0
  then show ?case by simp
next
  case (Suc k)
  let ?j = "r 0 mod (Suc k + 1)"
  have j: "?j < length xs" using Suc.prems by (simp add: less_le_trans [OF mod_less_divisor])
  have "set (xs[Suc k := xs ! ?j, ?j := xs ! Suc k]) = set xs"
    using Suc.prems j by (rule set_swap)
  then show ?case
    using Suc.IH [of "xs[Suc k := xs ! ?j, ?j := xs ! Suc k]"] Suc.prems
    by (simp add: Let_def randomBelow_def)
qed

lemma shuffleArray_set: "set (fst (shuffleArray xs r)) = set xs"
  by (cases xs) (simp_all add: shuffleArray_def shuffleFrom_set)

section \<open>Basic facts about pencil marks\<close>

text \<open>Folding a cell-wise change of the pencil marks over a list of positions.\<close>

lemma marks_fold_wf:
  "wfBoard (foldl (\<lambda>m p. setCell m (fst p) (snd p) (f (m ! fst p ! snd p))) m0 ps) = wfBoard m0"
  by (induction ps arbitrary: m0) simp_all

lemma marks_fold_nth:
  assumes "wfBoard m0" and "\<And>x. f (f x) = f x" and "set ps \<subseteq> set allCells"
  shows "foldl (\<lambda>m p. setCell m (fst p) (snd p) (f (m ! fst p ! snd p))) m0 ps ! r ! c =
           (if (r, c) \<in> set ps then f (m0 ! r ! c) else m0 ! r ! c)"
  using assms(1,3)
proof (induction ps arbitrary: m0)
  case Nil
  then show ?case by simp
next
  case (Cons p ps)
  obtain pr pc where p: "p = (pr, pc)" by (cases p)
  have rng: "pr < 9" "pc < 9" using Cons.prems(2) p by auto
  have wf': "wfBoard (setCell m0 pr pc (f (m0 ! pr ! pc)))" using Cons.prems(1) by simp
  have sub: "set ps \<subseteq> set allCells" using Cons.prems(2) by simp
  show ?case
    using Cons.IH [OF wf' sub] assms(2) Cons.prems(1) rng
    by (auto simp: p setCell_nth_wf)
qed

lemma engine_fold_marks:
  assumes "\<And>t p. step t p = t\<lparr>pencilMarks := setCell (pencilMarks t) (fst p) (snd p) (f (pencilMarks t ! fst p ! snd p))\<rparr>"
  shows "foldl step s ps =
           s\<lparr>pencilMarks := foldl (\<lambda>m p. setCell m (fst p) (snd p) (f (m ! fst p ! snd p))) (pencilMarks s) ps\<rparr>"
  by (induction ps arbitrary: s) (simp_all add: assms)

lemma foldl_nested:
  "foldl (\<lambda>t i. foldl (\<lambda>u j. g u (i, j)) t ys) s xs =
     foldl g s (concat (map (\<lambda>i. map (\<lambda>j. (i, j)) ys) xs))"
  by (induction xs arbitrary: s) (simp_all add: foldl_map)

lemma clearPencilMarks_eq:
  "clearPencilMarks s =
     s\<lparr>pencilMarks := foldl (\<lambda>m p. setCell m (fst p) (snd p) ((\<lambda>_. {}) (m ! fst p ! snd p))) (pencilMarks s) allCells\<rparr>"
  unfolding clearPencilMarks_def
  by (rule engine_fold_marks) (simp add: clearPencilMarksForCell_def split_def)

lemma clearPencilMarks_marks:
  assumes "wfBoard (pencilMarks s)"
  shows "pencilMarks (clearPencilMarks s) = replicate 9 (replicate 9 {})"
proof (rule board_eqI)
  show "wfBoard (pencilMarks (clearPencilMarks s))"
    using assms marks_fold_wf [where f = "\<lambda>_::int set. {}"] by (simp add: clearPencilMarks_eq)
  show "wfBoard (replicate 9 (replicate 9 ({}::int set)))"
    by (simp add: wfBoard_def list_all_length)
  fix r c :: nat assume "r < 9" "c < 9"
  then show "pencilMarks (clearPencilMarks s) ! r ! c = replicate 9 (replicate 9 {}) ! r ! c"
    using assms marks_fold_nth [where f = "\<lambda>_::int set. {}" and ps = allCells and ?m0.0 = "pencilMarks s"]
    by (simp add: clearPencilMarks_eq)
qed

lemma clearPencilMarks_fields [simp]:
  "grid (clearPencilMarks s) = grid s"
  "initialGrid (clearPencilMarks s) = initialGrid s"
  "solution (clearPencilMarks s) = solution s"
  by (simp_all add: clearPencilMarks_eq)

lemma clearPencilMarks_wf:
  assumes "wfBoard (pencilMarks s)"
  shows "clearPencilMarks s = s\<lparr>pencilMarks := replicate 9 (replicate 9 {})\<rparr>"
proof -
  obtain m where m: "clearPencilMarks s = s\<lparr>pencilMarks := m\<rparr>"
    using clearPencilMarks_eq by blast
  then have "pencilMarks (clearPencilMarks s) = m" by simp
  then have "m = replicate 9 (replicate 9 {})"
    using clearPencilMarks_marks [OF assms] by simp
  then show ?thesis using m by simp
qed

lemma updatePencilMarks_eq:
  "updatePencilMarks s row col num =
     s\<lparr>pencilMarks := foldl (\<lambda>m p. setCell m (fst p) (snd p) (m ! fst p ! snd p - {num}))
        (pencilMarks s) (unitCells row col)\<rparr>"
proof -
  let ?step = "\<lambda>t p. snd (removePencilMark t (fst p) (snd p) num)"
  have "updatePencilMarks s row col num = foldl ?step s (unitCells row col)"
    unfolding updatePencilMarks_def Let_def unitCells_def foldl_append foldl_map
    using foldl_nested [of ?step] by simp
  also have "\<dots> = s\<lparr>pencilMarks := foldl (\<lambda>m p. setCell m (fst p) (snd p) ((\<lambda>x. x - {num}) (m ! fst p ! snd p)))
        (pencilMarks s) (unitCells row col)\<rparr>"
    by (rule engine_fold_marks) (simp add: removePencilMark_def)
  finally show ?thesis by simp
qed

lemma unitCells_mem:
  assumes "row < 9" and "col < 9"
  shows "(a, b) \<in> set (unitCells row col) \<longleftrightarrow> a < 9 \<and> b < 9 \<and> sameUnit row col a b"
proof -
  let ?box = "concat (map (\<lambda>i. map (\<lambda>j. (i, j)) (filter (\<lambda>j. True) [(col div 3) * 3..<(col div 3) * 3 + 3]))
                 [(row div 3) * 3..<(row div 3) * 3 + 3])"
  have boxm: "(a, b) \<in> set ?box \<longleftrightarrow> a div 3 = row div 3 \<and> b div 3 = col div 3"
    unfolding mem_concat_pairs box_set by simp
  have a9: "a div 3 = row div 3 \<Longrightarrow> a < 9" using assms(1) box_lt9 by blast
  have b9: "b div 3 = col div 3 \<Longrightarrow> b < 9" using assms(2) box_lt9 by blast
  have "(a, b) \<in> set (unitCells row col) \<longleftrightarrow>
          (a = row \<and> b < 9) \<or> (b = col \<and> a < 9) \<or> (a, b) \<in> set ?box"
    unfolding unitCells_def by auto
  then show ?thesis
    unfolding boxm sameUnit_def using a9 b9 assms by auto
qed

lemma unitCells_subset: "row < 9 \<Longrightarrow> col < 9 \<Longrightarrow> set (unitCells row col) \<subseteq> set allCells"
  by (auto simp: unitCells_mem)

lemma updatePencilMarks_nth:
  assumes "wfBoard (pencilMarks s)" and "row < 9" and "col < 9" and "r < 9" and "c < 9"
  shows "pencilMarks (updatePencilMarks s row col num) ! r ! c =
           (if sameUnit row col r c then pencilMarks s ! r ! c - {num} else pencilMarks s ! r ! c)"
  using marks_fold_nth [where f = "\<lambda>x. x - {num}" and ps = "unitCells row col"
      and ?m0.0 = "pencilMarks s" and r = r and c = c] assms
  by (simp add: updatePencilMarks_eq unitCells_subset unitCells_mem)

lemma updatePencilMarks_fields [simp]:
  "grid (updatePencilMarks s row col num) = grid s"
  "initialGrid (updatePencilMarks s row col num) = initialGrid s"
  "solution (updatePencilMarks s row col num) = solution s"
  by (simp_all add: updatePencilMarks_eq)

lemma updatePencilMarks_wf [simp]:
  "wfBoard (pencilMarks (updatePencilMarks s row col num)) = wfBoard (pencilMarks s)"
  using marks_fold_wf [where f = "\<lambda>x. x - {num}"] by (simp add: updatePencilMarks_eq)

lemma placeNumber_commit_nth:
  assumes "wfEngine s" and "row < 9" and "col < 9" and "num \<noteq> 0"
    and "success (fst (placeNumber s row col num))" and "r < 9" and "c < 9"
  shows "pencilMarks (snd (placeNumber s row col num)) ! r ! c =
           (if r = row \<and> c = col then {}
            else if sameUnit row col r c then pencilMarks s ! r ! c - {num}
            else pencilMarks s ! r ! c)"
proof -
  have wfm: "wfBoard (pencilMarks s)" using assms(1) by (simp add: wfEngine_def)
  have self: "sameUnit row col row col" by (simp add: sameUnit_def)
  have valid: "initialGrid s ! row ! col = 0 \<and> isValidMove s row col num"
    using assms(4,5) by (auto simp: placeNumber_def split: if_splits)
  then have "snd (placeNumber s row col num) =
      updatePencilMarks (clearPencilMarksForCell (s\<lparr>grid := setCell (grid s) row col num\<rparr>) row col) row col num"
    using assms(4) by (simp add: placeNumber_def)
  then show ?thesis
    using wfm assms(2,3,6,7) self
    by (auto simp: updatePencilMarks_nth clearPencilMarksForCell_def setCell_nth_wf)
qed

section \<open>The completion check\<close>

lemma restore_engine:
  "s\<lparr>grid := setCell (grid s) row col 0\<rparr>
      \<lparr>grid := setCell (setCell (grid s) row col 0) row col (grid s ! row ! col)\<rparr> = s"
  by (simp add: setCell_restore)

text \<open>The validation loop writes every cell back: it returns the engine it was given.\<close>

lemma isValidSolutionLoop_state: "snd (isValidSolutionLoop s cells) = s"
proof (induction cells)
  case Nil
  then show ?case by simp
next
  case (Cons cell cells)
  obtain row col where cell: "cell = (row, col)" by (cases cell)
  show ?case using Cons.IH
    by (simp add: cell Let_def restore_engine)
qed

lemma isValidMove_given: "initialGrid s ! row ! col \<noteq> 0 \<Longrightarrow> \<not> isValidMove s row col num"
  by (simp add: isValidMove_def)

lemma isValidSolutionLoop_given:
  assumes "(r, c) \<in> set cells" and "initialGrid s ! r ! c \<noteq> 0" and "grid s ! r ! c \<noteq> 0"
  shows "\<not> fst (isValidSolutionLoop s cells)"
  using assms(1)
proof (induction cells)
  case Nil
  then show ?case by simp
next
  case (Cons cell cells)
  obtain row col where cell: "cell = (row, col)" by (cases cell)
  show ?case
  proof (cases "(row, col) = (r, c)")
    case True
    then show ?thesis using assms(2,3)
      by (simp add: cell Let_def isValidMove_given)
  next
    case False
    then have "(r, c) \<in> set cells" using Cons.prems cell by auto
    then have "\<not> fst (isValidSolutionLoop s cells)" by (rule Cons.IH)
    then show ?thesis
      by (simp add: cell Let_def restore_engine)
  qed
qed

text \<open>
  C1. The claim does not hold of the code. \<open>isValidSolution\<close> re-validates each filled
  cell through \<open>isValidMove\<close>, and \<open>isValidMove\<close> answers false for every given cell
  before it looks at the grid. So \<open>isSolved\<close> is false for every engine state in which
  some given cell is filled, whatever the grid holds: a puzzle with at least one clue is
  never reported solved.
\<close>

theorem isSolved_false_with_given:
  assumes "r < 9" and "c < 9" and "initialGrid s ! r ! c \<noteq> 0" and "grid s ! r ! c \<noteq> 0"
  shows "fst (isSolved s) = False \<and> fst (isValidSolution s) = False"
proof -
  have "(r, c) \<in> set allCells" using assms(1,2) by simp
  then have "\<not> fst (isValidSolutionLoop s allCells)"
    using assms(3,4) by (rule isValidSolutionLoop_given)
  then show ?thesis by (simp add: isSolved_def isValidSolution_def)
qed

text \<open>
  Scenario A: the complete, valid board, initialised with or without its solution, is not
  reported solved.
\<close>

theorem isSolved_false_with_given_witness:
  "init 0 newEngine scenarioA (Some scenarioA) = Some (True, sessionA)
   \<and> init 1 newEngine scenarioA None = Some (True, sessionA)
   \<and> initialGrid sessionA ! 0 ! 0 = 5
   \<and> grid sessionA ! 0 ! 0 = 5
   \<and> fst (isSolved sessionA) = False"
proof -
  have a: "init 0 newEngine scenarioA (Some scenarioA) = Some (True, sessionA)"
    by code_simp
  have b: "init 1 newEngine scenarioA None = Some (True, sessionA)"
    by code_simp
  have c: "initialGrid sessionA ! 0 ! 0 = 5" and d: "grid sessionA ! 0 ! 0 = 5"
    by (simp_all add: sessionA_def scenarioA_def)
  have "fst (isSolved sessionA) = False"
    using isSolved_false_with_given [of 0 0 sessionA] c d by simp
  then show ?thesis using a b c d by simp
qed

section \<open>Initialising with an unsolvable puzzle\<close>

lemma solve_restores:
  shows "wfBoard g \<Longrightarrow> solveRecursive n g = Some (ok, g') \<Longrightarrow> wfBoard g' \<and> (\<not> ok \<longrightarrow> g' = g)"
    and "wfBoard g \<Longrightarrow> row < 9 \<Longrightarrow> col < 9 \<Longrightarrow> g ! row ! col = 0 \<Longrightarrow>
         solveTry n g row col nums = Some (ok, g') \<Longrightarrow> wfBoard g' \<and> (\<not> ok \<longrightarrow> g' = g)"
proof (induction n g and n g row col nums arbitrary: ok g' and ok g'
    rule: solveRecursive_solveTry.induct)
  case (1 g)
  then show ?case by simp
next
  case (2 n g)
  show ?case
  proof (cases "find (\<lambda>cell. g ! fst cell ! snd cell = 0) allCells")
    case None
    then show ?thesis using "2.prems" by simp
  next
    case (Some cell)
    note e = find_empty_Some [OF Some]
    show ?thesis
      using "2.IH" [OF Some "2.prems"(1) e [THEN conjunct1] e [THEN conjunct2, THEN conjunct1]
          e [THEN conjunct2, THEN conjunct2]] "2.prems"(2) Some
      by simp
  qed
next
  case (3 n g row col)
  then show ?case by simp
next
  case (4 n g row col num nums)
  show ?case
  proof (cases "isValidMoveForGrid g row col num")
    case False
    then show ?thesis using "4.IH"(3) "4.prems" by simp
  next
    case True
    note valid = this
    let ?g1 = "setCell g row col num"
    have wf1: "wfBoard ?g1" using "4.prems"(1) by simp
    show ?thesis
    proof (cases "solveRecursive n ?g1")
      case None
      then show ?thesis using valid "4.prems"(5) by simp
    next
      case (Some res)
      obtain ok1 g1 where res: "res = (ok1, g1)" by (cases res)
      note inner = "4.IH"(1) [OF valid wf1 Some [unfolded res]]
      show ?thesis
      proof (cases ok1)
        case True
        then show ?thesis using valid Some res inner "4.prems"(5) by auto
      next
        case False
        then have g1: "g1 = ?g1" using inner by simp
        have undone: "setCell g1 row col 0 = g"
          unfolding g1 using "4.prems"(4) by (rule setCell_undo)
        have "solveTry n (setCell g1 row col 0) row col nums = Some (ok, g')"
          using valid Some res False "4.prems"(5) by simp
        then show ?thesis
          using "4.IH"(2) [OF valid Some res [symmetric] False, of ok g']
            "4.prems"(1,2,3,4) undone
          by simp
      qed
    qed
  qed
qed

lemma solve_fuel:
  shows "wfBoard g \<Longrightarrow> emptyCount g < n \<Longrightarrow> solveRecursive n g \<noteq> None"
    and "wfBoard g \<Longrightarrow> row < 9 \<Longrightarrow> col < 9 \<Longrightarrow> g ! row ! col = 0 \<Longrightarrow> emptyCount g \<le> n \<Longrightarrow>
         solveTry n g row col nums \<noteq> None"
proof (induction n g and n g row col nums rule: solveRecursive_solveTry.induct)
  case (1 g)
  then show ?case by simp
next
  case (2 n g)
  show ?case
  proof (cases "find (\<lambda>cell. g ! fst cell ! snd cell = 0) allCells")
    case None
    then show ?thesis by simp
  next
    case (Some cell)
    note e = find_empty_Some [OF Some]
    have le: "emptyCount g \<le> n" using "2.prems"(2) by simp
    show ?thesis
      using "2.IH" [OF Some "2.prems"(1) e [THEN conjunct1] e [THEN conjunct2, THEN conjunct1]
          e [THEN conjunct2, THEN conjunct2] le] Some
      by simp
  qed
next
  case (3 n g row col)
  then show ?case by simp
next
  case (4 n g row col num nums)
  show ?case
  proof (cases "isValidMoveForGrid g row col num")
    case False
    then show ?thesis using "4.IH"(3) "4.prems" by simp
  next
    case True
    note valid = this
    let ?g1 = "setCell g row col num"
    have wf1: "wfBoard ?g1" using "4.prems"(1) by simp
    have "num \<noteq> 0"
      using "4.prems"(2,3,4) valid [unfolded isValidMoveForGrid_eq] by (rule isValidPlacement_nonzero)
    then have "emptyCount ?g1 < emptyCount g"
      using "4.prems"(1,2,3,4) by (intro emptyCount_setCell)
    then have less: "emptyCount ?g1 < n" using "4.prems"(5) by simp
    have "solveRecursive n ?g1 \<noteq> None"
      using valid wf1 less by (rule "4.IH"(1))
    then obtain res where Some: "solveRecursive n ?g1 = Some res" by auto
    obtain ok1 g1 where res: "res = (ok1, g1)" by (cases res)
    show ?thesis
    proof (cases ok1)
      case True
      then show ?thesis using valid Some res by simp
    next
      case False
      have g1: "g1 = ?g1"
        using solve_restores(1) [OF wf1 Some [unfolded res]] False by simp
      have undone: "setCell g1 row col 0 = g"
        unfolding g1 using "4.prems"(4) by (rule setCell_undo)
      have "solveTry n (setCell g1 row col 0) row col nums \<noteq> None"
        using "4.IH"(2) [OF valid Some res [symmetric] False] "4.prems" undone by simp
      then show ?thesis using valid Some res False by simp
    qed
  qed
qed

text \<open>
  On a 9 by 9 puzzle and with a depth bound above 81 the solver answers, and \<open>init\<close>
  returns true whether or not a solution was passed in.
\<close>

lemma solvePuzzle_answers:
  assumes "wfBoard puzzle" and "81 < fuel"
  shows "solvePuzzle fuel puzzle \<noteq> None"
proof -
  have "emptyCount puzzle < fuel" using emptyCount_le [of puzzle] assms(2) by simp
  then have "solveRecursive fuel puzzle \<noteq> None"
    using assms(1) by (intro solve_fuel(1))
  then show ?thesis by (auto simp: solvePuzzle_def)
qed

lemma init_returns_true:
  assumes "wfBoard puzzle" and "81 < fuel"
  shows "\<exists>s'. init fuel s puzzle sol = Some (True, s')"
  using solvePuzzle_answers [OF assms] by (cases sol) (auto simp: init_def)

text \<open>
  C2, as stated, fails: \<open>init\<close> has no failing path. When the solver finds no solution,
  \<open>solvePuzzle\<close> returns null, \<open>init\<close> stores it as the solution and returns true.
\<close>

theorem init_infeasible_counterexample:
  "solvePuzzle 82 infeasiblePuzzle = Some None
   \<and> init 82 newEngine infeasiblePuzzle None =
       Some (True, \<lparr>grid = infeasiblePuzzle, solution = None, initialGrid = infeasiblePuzzle,
                    pencilMarks = replicate 9 (replicate 9 {})\<rparr>)"
  by code_simp

text \<open>
  C2, amended. Calling \<open>init\<close> without a solution on a puzzle for which the solver reports
  that none exists succeeds: it returns true, the grid and the given mask are the puzzle,
  all pencil marks are cleared, and the stored solution is null.
\<close>

theorem init_infeasible_returns_true:
  assumes "solvePuzzle fuel puzzle = Some None" and "wfBoard (pencilMarks s)"
  shows "init fuel s puzzle None =
           Some (True, s\<lparr>grid := puzzle, initialGrid := puzzle, solution := None,
                         pencilMarks := replicate 9 (replicate 9 {})\<rparr>)"
  using assms by (simp add: init_def clearPencilMarks_wf)

theorem init_infeasible_returns_true_witness:
  "solvePuzzle 82 infeasiblePuzzle = Some None
   \<and> wfBoard (pencilMarks newEngine)
   \<and> init 82 newEngine infeasiblePuzzle None =
       Some (True, newEngine\<lparr>grid := infeasiblePuzzle, initialGrid := infeasiblePuzzle,
                             solution := None, pencilMarks := replicate 9 (replicate 9 {})\<rparr>)"
proof -
  have a: "solvePuzzle 82 infeasiblePuzzle = Some None"
    by code_simp
  have b: "wfBoard (pencilMarks newEngine)"
    by code_simp
  show ?thesis using init_infeasible_returns_true [OF a b] a b by simp
qed

section \<open>Conflicting cells\<close>

lemma getConflictingCells_mem:
  assumes "row < 9" and "col < 9" and "grid s ! row ! col = v" and "v \<noteq> 0"
  shows "(a, b) \<in> set (getConflictingCells s row col v) \<longleftrightarrow>
           a < 9 \<and> b < 9 \<and> (a, b) \<noteq> (row, col)
           \<and> (a = row \<or> b = col \<or> (a div 3 = row div 3 \<and> b div 3 = col div 3))
           \<and> grid s ! a ! b = v"
proof -
  let ?rows = "map (\<lambda>x. (row, x)) (filter (\<lambda>x. x \<noteq> col \<and> grid s ! row ! x = v) [0..<9])"
  let ?cols = "map (\<lambda>x. (x, col)) (filter (\<lambda>x. x \<noteq> row \<and> grid s ! x ! col = v) [0..<9])"
  let ?box = "concat (map (\<lambda>i. map (\<lambda>j. (i, j))
                 (filter (\<lambda>j. (i \<noteq> row \<or> j \<noteq> col) \<and> grid s ! i ! j = v)
                    [(col div 3) * 3..<(col div 3) * 3 + 3])) [(row div 3) * 3..<(row div 3) * 3 + 3])"
  have g: "getConflictingCells s row col v = ?rows @ ?cols @ ?box"
    using assms(3,4) by (simp add: getConflictingCells_def Let_def)
  have rowm: "(a, b) \<in> set ?rows \<longleftrightarrow> a = row \<and> b < 9 \<and> b \<noteq> col \<and> grid s ! row ! b = v"
    by auto
  have colm: "(a, b) \<in> set ?cols \<longleftrightarrow> b = col \<and> a < 9 \<and> a \<noteq> row \<and> grid s ! a ! col = v"
    by auto
  have boxm: "(a, b) \<in> set ?box \<longleftrightarrow>
      a div 3 = row div 3 \<and> b div 3 = col div 3 \<and> (a \<noteq> row \<or> b \<noteq> col) \<and> grid s ! a ! b = v"
    unfolding mem_concat_pairs box_set by simp
  have a9: "a div 3 = row div 3 \<Longrightarrow> a < 9" using assms(1) box_lt9 by blast
  have b9: "b div 3 = col div 3 \<Longrightarrow> b < 9" using assms(2) box_lt9 by blast
  have "(a, b) \<in> set (getConflictingCells s row col v) \<longleftrightarrow>
          (a, b) \<in> set ?rows \<or> (a, b) \<in> set ?cols \<or> (a, b) \<in> set ?box"
    unfolding g by simp
  then show ?thesis
    unfolding rowm colm boxm using a9 b9 assms(1,2) by auto
qed

lemma conflictsSpec_mem:
  "(a, b) \<in> conflictsSpec s row col v \<longleftrightarrow>
           a < 9 \<and> b < 9 \<and> (a, b) \<noteq> (row, col)
           \<and> (a = row \<or> b = col \<or> (a div 3 = row div 3 \<and> b div 3 = col div 3))
           \<and> grid s ! a ! b = v"
  unfolding conflictsSpec_def by auto

text \<open>
  C3, as stated, fails: \<open>getConflictingCells\<close> first looks at the cell itself and returns
  the empty list unless the cell holds \<open>num\<close>. On the board of Scenario B, cell (8, 8) is
  empty, so asking for the conflicts of 5 there gives nothing, although (7, 8) in the same
  column and box holds 5.
\<close>

theorem getConflictingCells_empty_cell_counterexample:
  "getConflictingCells sessionB 8 8 5 = [] \<and> (7, 8) \<in> conflictsSpec sessionB 8 8 5
   \<and> set (getConflictingCells sessionB 8 8 5) \<noteq> conflictsSpec sessionB 8 8 5"
  by code_simp

text \<open>
  C3, amended. For a value \<open>v\<close> from 1 to 9: when cell \<open>(row, col)\<close> holds \<open>v\<close>,
  \<open>getConflictingCells\<close> returns exactly the other cells of its row, column and box that
  hold \<open>v\<close>; when the cell is empty or holds another value, it returns the empty list.
\<close>

theorem getConflictingCells_when_holding:
  assumes "wfEngine s" and "row < 9" and "col < 9" and "1 \<le> v" and "v \<le> 9"
  shows "set (getConflictingCells s row col v) =
           (if grid s ! row ! col = v then conflictsSpec s row col v else {})"
proof (cases "grid s ! row ! col = v")
  case False
  then show ?thesis by (auto simp: getConflictingCells_def)
next
  case True
  have v0: "v \<noteq> 0" using assms(4) by simp
  have "\<And>p. p \<in> set (getConflictingCells s row col v) \<longleftrightarrow> p \<in> conflictsSpec s row col v"
  proof -
    fix p :: "nat \<times> nat"
    obtain a b where p: "p = (a, b)" by (cases p)
    show "p \<in> set (getConflictingCells s row col v) \<longleftrightarrow> p \<in> conflictsSpec s row col v"
      unfolding p using True v0 assms(2,3)
      by (simp add: getConflictingCells_mem conflictsSpec_mem)
  qed
  then show ?thesis using True by auto
qed

theorem getConflictingCells_when_holding_witness:
  "wfEngine sessionB \<and> grid sessionB ! 0 ! 0 = 5
   \<and> set (getConflictingCells sessionB 0 0 5) = conflictsSpec sessionB 0 0 5
   \<and> grid sessionB ! 8 ! 8 \<noteq> 5
   \<and> set (getConflictingCells sessionB 8 8 5) = {}"
proof -
  have wf: "wfEngine sessionB"
    by code_simp
  have a: "grid sessionB ! 0 ! 0 = 5" and b: "grid sessionB ! 8 ! 8 \<noteq> 5"
    by (simp_all add: sessionB_def scenarioB_def)
  show ?thesis
    using getConflictingCells_when_holding [OF wf, of 0 0 5]
      getConflictingCells_when_holding [OF wf, of 8 8 5] wf a b
    by simp
qed

section \<open>Generating a complete board\<close>

lemma consistent_iff:
  "consistent g \<longleftrightarrow>
     (\<forall>r<9. \<forall>c<9. \<forall>r'<9. \<forall>c'<9.
        (r, c) \<noteq> (r', c') \<longrightarrow> sameUnit r c r' c' \<longrightarrow> g ! r ! c \<noteq> 0 \<longrightarrow> g ! r ! c \<noteq> g ! r' ! c')"
proof -
  have "consistent g \<longleftrightarrow>
      (\<forall>r<9. \<forall>c<9. \<forall>r'<9. \<forall>c'<9.
         (r, c) = (r', c') \<or> \<not> sameUnit r c r' c' \<or> g ! r ! c = 0 \<or> g ! r ! c \<noteq> g ! r' ! c')"
    unfolding consistent_def list_all_iff set_allCells
    by (simp add: Ball_def, blast)
  then show ?thesis by blast
qed

lemma digits_iff: "digits g \<longleftrightarrow> (\<forall>r<9. \<forall>c<9. 0 \<le> g ! r ! c \<and> g ! r ! c \<le> 9)"
  unfolding digits_def list_all_iff by (rule ball_allCells)

lemma full_iff: "full g \<longleftrightarrow> (\<forall>r<9. \<forall>c<9. g ! r ! c \<noteq> 0)"
  unfolding full_def list_all_iff by (rule ball_allCells)

lemma agrees_iff: "agrees g s \<longleftrightarrow> (\<forall>r<9. \<forall>c<9. g ! r ! c = 0 \<or> g ! r ! c = s ! r ! c)"
  unfolding agrees_def list_all_iff by (rule ball_allCells)

lemma consistent_setCell:
  assumes "wfBoard g" and "row < 9" and "col < 9" and "consistent g"
    and "isValidPlacement g row col num"
  shows "consistent (setCell g row col num)"
  unfolding consistent_iff
proof (intro allI impI)
  fix r c r' c'
  assume b: "r < 9" "c < 9" "r' < 9" "c' < 9"
    and ne: "(r, c) \<noteq> (r', c')" and u: "sameUnit r c r' c'"
    and nz: "setCell g row col num ! r ! c \<noteq> 0"
  note valid = assms(5) [unfolded isValidPlacement_iff [OF assms(2,3)], rule_format]
  note cons = assms(4) [unfolded consistent_iff, rule_format]
  note nth = setCell_nth_wf [OF assms(1,2,3)]
  show "setCell g row col num ! r ! c \<noteq> setCell g row col num ! r' ! c'"
  proof (cases "r = row \<and> c = col")
    case True
    then have "g ! r' ! c' \<noteq> num" using valid [of r' c'] b u by simp
    then show ?thesis using True ne by (auto simp: nth)
  next
    case False
    note p = this
    show ?thesis
    proof (cases "r' = row \<and> c' = col")
      case True
      have "sameUnit row col r c" using u True sameUnit_sym by simp
      then have "g ! r ! c \<noteq> num" using valid [of r c] b by simp
      then show ?thesis using True p by (auto simp: nth)
    next
      case False
      then show ?thesis using p cons [of r c r' c'] b ne u nz by (auto simp: nth)
    qed
  qed
qed

lemma digits_setCell:
  assumes "wfBoard g" and "row < 9" and "col < 9" and "digits g" and "0 \<le> num" and "num \<le> 9"
  shows "digits (setCell g row col num)"
  using assms by (auto simp: digits_iff setCell_nth_wf)

lemma agrees_setCell:
  assumes "wfBoard g" and "row < 9" and "col < 9" and "agrees g s"
  shows "agrees (setCell g row col (s ! row ! col)) s"
  using assms by (auto simp: agrees_iff setCell_nth_wf)

text \<open>The value a completion holds at an empty cell is a valid placement there.\<close>

lemma isValidPlacement_of_completion:
  assumes "row < 9" and "col < 9" and "g ! row ! col = 0"
    and "agrees g s" and "consistent s" and "full s"
  shows "isValidPlacement g row col (s ! row ! col)"
  unfolding isValidPlacement_iff [OF assms(1,2)]
proof (intro allI impI)
  fix r c
  assume b: "r < 9" "c < 9" and u: "sameUnit row col r c"
  have nz: "s ! row ! col \<noteq> 0" using assms(1,2,6) by (simp add: full_iff)
  show "g ! r ! c \<noteq> s ! row ! col"
  proof (cases "r = row \<and> c = col")
    case True
    then show ?thesis using assms(3) nz by simp
  next
    case False
    then have "s ! row ! col \<noteq> s ! r ! c"
      using assms(5) [unfolded consistent_iff, rule_format, of row col r c] assms(1,2) b u nz
      by auto
    moreover have "g ! r ! c = 0 \<or> g ! r ! c = s ! r ! c"
      using assms(4) b by (simp add: agrees_iff)
    ultimately show ?thesis using nz by auto
  qed
qed

text \<open>A search that fails hands the board back as it got it.\<close>

lemma fill_restores:
  shows "wfBoard g \<Longrightarrow> fillGrid n g r = Some (ok, g', r') \<Longrightarrow> wfBoard g' \<and> (\<not> ok \<longrightarrow> g' = g)"
    and "wfBoard g \<Longrightarrow> row < 9 \<Longrightarrow> col < 9 \<Longrightarrow> g ! row ! col = 0 \<Longrightarrow>
         fillTry n g row col nums r = Some (ok, g', r') \<Longrightarrow> wfBoard g' \<and> (\<not> ok \<longrightarrow> g' = g)"
proof (induction n g r and n g row col nums r arbitrary: ok g' r' and ok g' r'
    rule: fillGrid_fillTry.induct)
  case (1 g r)
  then show ?case by simp
next
  case (2 n g r)
  show ?case
  proof (cases "find (\<lambda>cell. g ! fst cell ! snd cell = 0) allCells")
    case None
    then show ?thesis using "2.prems" by simp
  next
    case (Some cell)
    note e = find_empty_Some [OF Some]
    show ?thesis
      using "2.IH" [OF Some "2.prems"(1) e [THEN conjunct1] e [THEN conjunct2, THEN conjunct1]
          e [THEN conjunct2, THEN conjunct2]] "2.prems"(2) Some
      by simp
  qed
next
  case (3 n g row col r)
  then show ?case by simp
next
  case (4 n g row col num nums r)
  show ?case
  proof (cases "isValidPlacement g row col num")
    case False
    then show ?thesis using "4.IH"(3) "4.prems" by simp
  next
    case True
    let ?g1 = "setCell g row col num"
    have wf1: "wfBoard ?g1" using "4.prems"(1) by simp
    show ?thesis
    proof (cases "fillGrid n ?g1 r")
      case None
      then show ?thesis using True "4.prems"(5) by simp
    next
      case (Some res)
      obtain ok1 g1 r1 where res: "res = (ok1, g1, r1)" by (cases res)
      note inner = "4.IH"(1) [OF True wf1 Some [unfolded res]]
      show ?thesis
      proof (cases ok1)
        case True
        then show ?thesis using \<open>isValidPlacement g row col num\<close> Some res inner "4.prems"(5) by auto
      next
        case False
        then have g1: "g1 = ?g1" using inner by simp
        have undone: "setCell g1 row col 0 = g"
          unfolding g1 using "4.prems"(4) by (rule setCell_undo)
        have "fillTry n (setCell g1 row col 0) row col nums r1 = Some (ok, g', r')"
          using \<open>isValidPlacement g row col num\<close> Some res False "4.prems"(5) by simp
        then show ?thesis
          using "4.IH"(2) [OF \<open>isValidPlacement g row col num\<close> Some res [symmetric] refl False, of ok g' r']
            "4.prems"(1,2,3,4) undone
          by simp
      qed
    qed
  qed
qed

lemma set_shuffled_digits: "set (fst (shuffleArray [1..9] r)) = {1..9}"
  by (simp add: shuffleArray_set)

text \<open>A search that succeeds leaves a full board, consistent if it started from one.\<close>

lemma fill_sound:
  shows "wfBoard g \<Longrightarrow> consistent g \<Longrightarrow> digits g \<Longrightarrow> fillGrid n g r = Some (True, g', r') \<Longrightarrow>
         full g' \<and> consistent g' \<and> digits g'"
    and "wfBoard g \<Longrightarrow> consistent g \<Longrightarrow> digits g \<Longrightarrow> row < 9 \<Longrightarrow> col < 9 \<Longrightarrow>
         g ! row ! col = 0 \<Longrightarrow> set nums \<subseteq> {1..9} \<Longrightarrow>
         fillTry n g row col nums r = Some (True, g', r') \<Longrightarrow>
         full g' \<and> consistent g' \<and> digits g'"
proof (induction n g r and n g row col nums r arbitrary: g' r' and g' r'
    rule: fillGrid_fillTry.induct)
  case (1 g r)
  then show ?case by simp
next
  case (2 n g r)
  show ?case
  proof (cases "find (\<lambda>cell. g ! fst cell ! snd cell = 0) allCells")
    case None
    then show ?thesis using "2.prems" find_empty_None [OF None] by simp
  next
    case (Some cell)
    note e = find_empty_Some [OF Some]
    have sub: "set (fst (shuffleArray [1..9] r)) \<subseteq> {1..9}"
      by (simp add: set_shuffled_digits)
    show ?thesis
      using "2.IH" [OF Some "2.prems"(1,2,3) e [THEN conjunct1] e [THEN conjunct2, THEN conjunct1]
          e [THEN conjunct2, THEN conjunct2] sub] "2.prems"(4) Some
      by simp
  qed
next
  case (3 n g row col r)
  then show ?case by simp
next
  case (4 n g row col num nums r)
  have nums: "set nums \<subseteq> {1..9}" and num: "0 \<le> num" "num \<le> 9"
    using "4.prems"(7) by auto
  show ?case
  proof (cases "isValidPlacement g row col num")
    case False
    then show ?thesis using "4.IH"(3) "4.prems" nums by simp
  next
    case True
    note valid = this
    let ?g1 = "setCell g row col num"
    have wf1: "wfBoard ?g1" using "4.prems"(1) by simp
    have cons1: "consistent ?g1"
      using "4.prems"(1,4,5,2) valid by (rule consistent_setCell)
    have dig1: "digits ?g1"
      using "4.prems"(1,4,5,3) num by (rule digits_setCell)
    show ?thesis
    proof (cases "fillGrid n ?g1 r")
      case None
      then show ?thesis using valid "4.prems"(8) by simp
    next
      case (Some res)
      obtain ok1 g1 r1 where res: "res = (ok1, g1, r1)" by (cases res)
      show ?thesis
      proof (cases ok1)
        case True
        then have "fillGrid n ?g1 r = Some (True, g', r')"
          using valid Some res "4.prems"(8) by simp
        then show ?thesis
          using "4.IH"(1) [OF valid wf1 cons1 dig1] by simp
      next
        case False
        have g1: "g1 = ?g1"
          using fill_restores(1) [OF wf1 Some [unfolded res]] False by simp
        have undone: "setCell g1 row col 0 = g"
          unfolding g1 using "4.prems"(6) by (rule setCell_undo)
        have "fillTry n (setCell g1 row col 0) row col nums r1 = Some (True, g', r')"
          using valid Some res False "4.prems"(8) by simp
        then show ?thesis
          using "4.IH"(2) [OF valid Some res [symmetric] refl False, of g' r']
            "4.prems"(1-6) nums undone
          by simp
      qed
    qed
  qed
qed

text \<open>With more fuel than empty cells the search comes to an answer.\<close>

lemma fill_fuel:
  shows "wfBoard g \<Longrightarrow> emptyCount g < n \<Longrightarrow> fillGrid n g r \<noteq> None"
    and "wfBoard g \<Longrightarrow> row < 9 \<Longrightarrow> col < 9 \<Longrightarrow> g ! row ! col = 0 \<Longrightarrow> emptyCount g \<le> n \<Longrightarrow>
         fillTry n g row col nums r \<noteq> None"
proof (induction n g r and n g row col nums r rule: fillGrid_fillTry.induct)
  case (1 g r)
  then show ?case by simp
next
  case (2 n g r)
  show ?case
  proof (cases "find (\<lambda>cell. g ! fst cell ! snd cell = 0) allCells")
    case None
    then show ?thesis by simp
  next
    case (Some cell)
    note e = find_empty_Some [OF Some]
    have le: "emptyCount g \<le> n" using "2.prems"(2) by simp
    show ?thesis
      using "2.IH" [OF Some "2.prems"(1) e [THEN conjunct1] e [THEN conjunct2, THEN conjunct1]
          e [THEN conjunct2, THEN conjunct2] le] Some
      by simp
  qed
next
  case (3 n g row col r)
  then show ?case by simp
next
  case (4 n g row col num nums r)
  show ?case
  proof (cases "isValidPlacement g row col num")
    case False
    then show ?thesis using "4.IH"(3) "4.prems" by simp
  next
    case True
    note valid = this
    let ?g1 = "setCell g row col num"
    have wf1: "wfBoard ?g1" using "4.prems"(1) by simp
    have "num \<noteq> 0"
      using "4.prems"(2,3,4) valid by (rule isValidPlacement_nonzero)
    then have "emptyCount ?g1 < emptyCount g"
      using "4.prems"(1,2,3,4) by (intro emptyCount_setCell)
    then have less: "emptyCount ?g1 < n" using "4.prems"(5) by simp
    have "fillGrid n ?g1 r \<noteq> None"
      using valid wf1 less by (rule "4.IH"(1))
    then obtain res where Some: "fillGrid n ?g1 r = Some res" by auto
    obtain ok1 g1 r1 where res: "res = (ok1, g1, r1)" by (cases res)
    show ?thesis
    proof (cases ok1)
      case True
      then show ?thesis using valid Some res by simp
    next
      case False
      have g1: "g1 = ?g1"
        using fill_restores(1) [OF wf1 Some [unfolded res]] False by simp
      have undone: "setCell g1 row col 0 = g"
        unfolding g1 using "4.prems"(4) by (rule setCell_undo)
      have "fillTry n (setCell g1 row col 0) row col nums r1 \<noteq> None"
        using "4.IH"(2) [OF valid Some res [symmetric] refl False] "4.prems" undone by simp
      then show ?thesis using valid Some res False by simp
    qed
  qed
qed

text \<open>On a board that has a completion the search does not fail.\<close>

lemma fill_complete:
  shows "wfBoard g \<Longrightarrow> agrees g s \<Longrightarrow> consistent s \<Longrightarrow> full s \<Longrightarrow> digits s \<Longrightarrow>
         fillGrid n g r \<noteq> Some (False, g', r')"
    and "wfBoard g \<Longrightarrow> agrees g s \<Longrightarrow> consistent s \<Longrightarrow> full s \<Longrightarrow> digits s \<Longrightarrow>
         row < 9 \<Longrightarrow> col < 9 \<Longrightarrow> g ! row ! col = 0 \<Longrightarrow> s ! row ! col \<in> set nums \<Longrightarrow>
         fillTry n g row col nums r \<noteq> Some (False, g', r')"
proof (induction n g r and n g row col nums r arbitrary: g' r' and g' r'
    rule: fillGrid_fillTry.induct)
  case (1 g r)
  then show ?case by simp
next
  case (2 n g r)
  show ?case
  proof (cases "find (\<lambda>cell. g ! fst cell ! snd cell = 0) allCells")
    case None
    then show ?thesis by simp
  next
    case (Some cell)
    note e = find_empty_Some [OF Some]
    have "s ! fst cell ! snd cell \<noteq> 0 \<and> 0 \<le> s ! fst cell ! snd cell \<and> s ! fst cell ! snd cell \<le> 9"
      using e "2.prems"(4,5) by (simp add: full_iff digits_iff)
    then have mem: "s ! fst cell ! snd cell \<in> set (fst (shuffleArray [1..9] r))"
      unfolding set_shuffled_digits by simp
    show ?thesis
      using "2.IH" [OF Some "2.prems" e [THEN conjunct1] e [THEN conjunct2, THEN conjunct1]
          e [THEN conjunct2, THEN conjunct2] mem] Some
      by simp
  qed
next
  case (3 n g row col r)
  then show ?case by simp
next
  case (4 n g row col num nums r)
  note good = isValidPlacement_of_completion [OF "4.prems"(6,7,8,2,3,4)]
  show ?case
  proof (cases "isValidPlacement g row col num")
    case False
    then have "num \<noteq> s ! row ! col" using good by auto
    then have "s ! row ! col \<in> set nums" using "4.prems"(9) by simp
    then show ?thesis using "4.IH"(3) [OF False "4.prems"(1-8)] False by simp
  next
    case True
    note valid = this
    let ?g1 = "setCell g row col num"
    have wf1: "wfBoard ?g1" using "4.prems"(1) by simp
    show ?thesis
    proof (cases "fillGrid n ?g1 r")
      case None
      then show ?thesis using valid by simp
    next
      case (Some res)
      obtain ok1 g1 r1 where res: "res = (ok1, g1, r1)" by (cases res)
      show ?thesis
      proof (cases ok1)
        case True
        then show ?thesis using valid Some res by simp
      next
        case False
        have g1: "g1 = ?g1"
          using fill_restores(1) [OF wf1 Some [unfolded res]] False by simp
        have undone: "setCell g1 row col 0 = g"
          unfolding g1 using "4.prems"(8) by (rule setCell_undo)
        have "num \<noteq> s ! row ! col"
        proof
          assume eq: "num = s ! row ! col"
          have "agrees ?g1 s"
            unfolding eq using "4.prems"(1,6,7,2) by (rule agrees_setCell)
          then have "fillGrid n ?g1 r \<noteq> Some (False, g1, r1)"
            using "4.IH"(1) [OF valid wf1 _ "4.prems"(3,4,5)] by simp
          then show False using Some res False by simp
        qed
        then have mem: "s ! row ! col \<in> set nums" using "4.prems"(9) by simp
        have "fillTry n (setCell g1 row col 0) row col nums r1 \<noteq> Some (False, g', r')"
          using "4.IH"(2) [OF valid Some res [symmetric] refl False, of g' r'] "4.prems"(1-8) mem undone
          by simp
        then show ?thesis using valid Some res False by simp
      qed
    qed
  qed
qed

lemma permOf1to9I:
  assumes "length xs = 9"
    and "\<And>i j. i < 9 \<Longrightarrow> j < 9 \<Longrightarrow> i \<noteq> j \<Longrightarrow> xs ! i \<noteq> xs ! j"
    and "\<And>i. i < 9 \<Longrightarrow> 1 \<le> xs ! i \<and> xs ! i \<le> 9"
  shows "permOf1to9 xs"
proof -
  have d: "distinct xs"
    unfolding distinct_conv_nth using assms(1,2) by simp
  have sub: "set xs \<subseteq> {1..9}"
    unfolding set_conv_nth using assms(1,3) by auto
  have "card (set xs) = 9"
    using d assms(1) by (simp add: distinct_card)
  then have "card (set xs) = card {1..9::int}" by simp
  then have "set xs = {1..9}"
    using sub by (intro card_subset_eq) simp_all
  then show ?thesis using d assms(1) by (simp add: permOf1to9_def)
qed

lemma box_cell:
  assumes "i < 9" and "k < 9"
  shows "3 * (i div 3) + k div 3 < (9::nat)" and "3 * (i mod 3) + k mod 3 < (9::nat)"
    and "(3 * (i div 3) + k div 3) div 3 = i div (3::nat)"
    and "(3 * (i mod 3) + k mod 3) div 3 = i mod (3::nat)"
  using assms by arith+

lemma box_cell_inj:
  assumes "k < 9" and "k' < 9" and "k \<noteq> k'"
  shows "(3 * a + k div 3, 3 * b + k mod 3) \<noteq> (3 * a + k' div 3, 3 * b + k' mod (3::nat))"
  using assms by (metis Pair_inject add_left_cancel div_mult_mod_eq)

lemma completeValidI:
  assumes "wfBoard g" and "full g" and "consistent g" and "digits g"
  shows "completeValid g"
proof -
  note cons = assms(3) [unfolded consistent_iff, rule_format]
  have cell: "1 \<le> g ! r ! c \<and> g ! r ! c \<le> 9 \<and> g ! r ! c \<noteq> 0" if "r < 9" "c < 9" for r c
  proof -
    have "g ! r ! c \<noteq> 0" and "0 \<le> g ! r ! c \<and> g ! r ! c \<le> 9"
      using assms(2,4) that unfolding full_iff digits_iff by blast+
    then show ?thesis by linarith
  qed
  have "permOf1to9 (rowOf g i) \<and> permOf1to9 (colOf g i) \<and> permOf1to9 (boxOf g i)" if i: "i < 9" for i
  proof (intro conjI)
    show "permOf1to9 (rowOf g i)"
    proof (rule permOf1to9I)
      show "length (rowOf g i) = 9" by (simp add: rowOf_def)
    next
      fix k k' :: nat assume k: "k < 9" "k' < 9" "k \<noteq> k'"
      have "g ! i ! k \<noteq> g ! i ! k'"
        using cons [of i k i k'] i k cell [of i k] by (simp add: sameUnit_def)
      then show "rowOf g i ! k \<noteq> rowOf g i ! k'" using k by (simp add: rowOf_def)
    next
      fix k :: nat assume "k < 9"
      then show "1 \<le> rowOf g i ! k \<and> rowOf g i ! k \<le> 9" using cell [of i k] i by (simp add: rowOf_def)
    qed
  next
    show "permOf1to9 (colOf g i)"
    proof (rule permOf1to9I)
      show "length (colOf g i) = 9" by (simp add: colOf_def)
    next
      fix k k' :: nat assume k: "k < 9" "k' < 9" "k \<noteq> k'"
      have "g ! k ! i \<noteq> g ! k' ! i"
        using cons [of k i k' i] i k cell [of k i] by (simp add: sameUnit_def)
      then show "colOf g i ! k \<noteq> colOf g i ! k'" using k by (simp add: colOf_def)
    next
      fix k :: nat assume "k < 9"
      then show "1 \<le> colOf g i ! k \<and> colOf g i ! k \<le> 9" using cell [of k i] i by (simp add: colOf_def)
    qed
  next
    show "permOf1to9 (boxOf g i)"
    proof (rule permOf1to9I)
      show "length (boxOf g i) = 9" by (simp add: boxOf_def)
    next
      fix k k' :: nat assume k: "k < 9" "k' < 9" "k \<noteq> k'"
      let ?r = "3 * (i div 3) + k div 3" and ?c = "3 * (i mod 3) + k mod 3"
      let ?r' = "3 * (i div 3) + k' div 3" and ?c' = "3 * (i mod 3) + k' mod 3"
      have u: "sameUnit ?r ?c ?r' ?c'"
        using box_cell(3,4) [OF i k(1)] box_cell(3,4) [OF i k(2)] by (simp add: sameUnit_def)
      have "g ! ?r ! ?c \<noteq> g ! ?r' ! ?c'"
        using cons [of ?r ?c ?r' ?c'] box_cell(1,2) [OF i k(1)] box_cell(1,2) [OF i k(2)]
          box_cell_inj [OF k] u cell [of ?r ?c]
        by simp
      then show "boxOf g i ! k \<noteq> boxOf g i ! k'" using k by (simp add: boxOf_def)
    next
      fix k :: nat assume k: "k < 9"
      then show "1 \<le> boxOf g i ! k \<and> boxOf g i ! k \<le> 9"
        using cell [OF box_cell(1,2) [OF i k]] by (simp add: boxOf_def)
    qed
  qed
  then show ?thesis using assms(1) by (simp add: completeValid_def list_all_iff)
qed

lemma scenarioA_solved: "wfBoard scenarioA \<and> full scenarioA \<and> consistent scenarioA \<and> digits scenarioA"
  by code_simp

lemma emptyBoard_start:
  "wfBoard emptyBoard \<and> consistent emptyBoard \<and> digits emptyBoard \<and> agrees emptyBoard scenarioA"
  by code_simp

text \<open>
  C4. Started on the empty board, \<open>fillGrid\<close> returns true whatever the random draws are
  (given more fuel than the 81 cells, the model has an answer: the search ends), and the
  board \<open>generateCompletePuzzle\<close> returns is complete and valid: every row, column and box
  is a permutation of 1 to 9.
\<close>

theorem generateCompletePuzzle_complete_valid:
  assumes "81 < fuel"
  shows "\<exists>g r'. fillGrid fuel emptyBoard rnd = Some (True, g, r')
           \<and> generateCompletePuzzle fuel rnd = Some (g, r')
           \<and> completeValid g"
proof -
  note a = scenarioA_solved
  note e = emptyBoard_start
  have wf: "wfBoard emptyBoard" using e by simp
  have "emptyCount emptyBoard < fuel"
    using emptyCount_le [of emptyBoard] assms by simp
  then have "fillGrid fuel emptyBoard rnd \<noteq> None"
    using wf by (intro fill_fuel(1))
  then obtain ok g r' where res: "fillGrid fuel emptyBoard rnd = Some (ok, g, r')"
    by (cases "fillGrid fuel emptyBoard rnd") auto
  have "fillGrid fuel emptyBoard rnd \<noteq> Some (False, g, r')"
    using wf e a by (intro fill_complete(1) [where s = scenarioA]) simp_all
  then have ok: "ok" using res by auto
  have "full g \<and> consistent g \<and> digits g"
    using fill_sound(1) [of emptyBoard fuel rnd g r'] e res ok by simp
  moreover have "wfBoard g"
    using fill_restores(1) [OF wf res] by simp
  ultimately have "completeValid g" by (simp add: completeValidI)
  moreover have "generateCompletePuzzle fuel rnd = Some (g, r')"
    using res by (simp add: generateCompletePuzzle_def emptyBoard_def)
  ultimately show ?thesis using res ok by simp
qed

theorem generateCompletePuzzle_complete_valid_witness:
  "(81::nat) < 82
   \<and> (\<exists>g r'. fillGrid 82 emptyBoard (\<lambda>k. k * 7 + 3) = Some (True, g, r')
           \<and> generateCompletePuzzle 82 (\<lambda>k. k * 7 + 3) = Some (g, r')
           \<and> completeValid g)"
proof -
  have a: "(81::nat) < 82"
    by simp
  show ?thesis
    using generateCompletePuzzle_complete_valid [OF a, of "\<lambda>k. k * 7 + 3"] a by simp
qed

section \<open>Deriving a puzzle\<close>

lemma removeStep_cases:
  "fst (removeStep st pos) = fst st \<or> fst (removeStep st pos) = setCell (fst st) (fst pos) (snd pos) 0"
  by (simp add: removeStep_def Let_def setCell_restore)

lemma removeStep_agree:
  assumes "\<And>r c. fst st ! r ! c = 0 \<or> fst st ! r ! c = sol ! r ! c"
  shows "fst (removeStep st pos) ! r ! c = 0 \<or> fst (removeStep st pos) ! r ! c = sol ! r ! c"
  using removeStep_cases [of st pos] assms [of r c] by (auto simp: setCell_nth)

lemma removeLoop_agree:
  assumes "\<And>r c. fst st ! r ! c = 0 \<or> fst st ! r ! c = sol ! r ! c"
  shows "fst (removeLoop target positions st) ! r ! c = 0
       \<or> fst (removeLoop target positions st) ! r ! c = sol ! r ! c"
  using assms
proof (induction positions arbitrary: st)
  case Nil
  then show ?case by simp
next
  case (Cons pos positions)
  show ?case
  proof (cases "snd st \<le> target")
    case True
    then show ?thesis using Cons.prems by simp
  next
    case False
    have "fst (removeLoop target positions (removeStep st pos)) ! r ! c = 0
        \<or> fst (removeLoop target positions (removeStep st pos)) ! r ! c = sol ! r ! c"
      by (rule Cons.IH) (rule removeStep_agree, rule Cons.prems)
    then show ?thesis using False by simp
  qed
qed

text \<open>
  C5. Every non-zero cell of the puzzle \<open>createPuzzle\<close> returns holds the value of the
  same cell of the solution it was given, for every difficulty string and every outcome of
  the random draws.
\<close>

theorem createPuzzle_givens_from_solution:
  assumes "wfBoard sol" and "row < 9" and "col < 9"
    and "fst (createPuzzle sol difficulty rnd) ! row ! col \<noteq> 0"
  shows "fst (createPuzzle sol difficulty rnd) ! row ! col = sol ! row ! col"
proof -
  let ?target = "fst (targetClues difficulty rnd)"
  let ?positions = "fst (shuffleArray allCells (snd (targetClues difficulty rnd)))"
  have "fst (removeLoop ?target ?positions (sol, 81)) ! row ! col = 0
      \<or> fst (removeLoop ?target ?positions (sol, 81)) ! row ! col = sol ! row ! col"
    by (rule removeLoop_agree) simp
  then show ?thesis using assms(4) by (simp add: createPuzzle_def Let_def)
qed

theorem createPuzzle_givens_from_solution_witness:
  "wfBoard scenarioA
   \<and> fst (createPuzzle scenarioA ''expert'' (\<lambda>k. k * 7 + 3)) ! 8 ! 8 \<noteq> 0
   \<and> fst (createPuzzle scenarioA ''expert'' (\<lambda>k. k * 7 + 3)) ! 8 ! 8 = scenarioA ! 8 ! 8"
proof -
  have a: "wfBoard scenarioA"
    by code_simp
  have b: "fst (createPuzzle scenarioA ''expert'' (\<lambda>k. k * 7 + 3)) ! 8 ! 8 \<noteq> 0"
    by code_simp
  show ?thesis
    using createPuzzle_givens_from_solution [OF a _ _ b] a b by simp
qed

section \<open>The floor on the clue count\<close>

lemma emptyCount_complete:
  assumes "filledCells sol = 81"
  shows "emptyCount sol = 0"
  using assms filled_plus_empty [of sol] by simp

text \<open>A removal that would leave more than 64 empty cells is undone.\<close>

lemma removeStep_gate:
  assumes "64 < emptyCount (setCell puzzle row col 0)"
  shows "removeStep (puzzle, currentClues) (row, col) = (puzzle, currentClues)"
  using assms by (simp add: removeStep_def Let_def hasUniqueSolution_def setCell_restore)

lemma removeStep_empty:
  assumes "emptyCount (fst st) \<le> 64"
  shows "emptyCount (fst (removeStep st pos)) \<le> 64"
  using assms by (simp add: removeStep_def Let_def hasUniqueSolution_def setCell_restore)

lemma removeLoop_empty:
  assumes "emptyCount (fst st) \<le> 64"
  shows "emptyCount (fst (removeLoop target positions st)) \<le> 64"
  using assms
proof (induction positions arbitrary: st)
  case Nil
  then show ?case by simp
next
  case (Cons pos positions)
  then show ?case by (simp add: removeStep_empty)
qed

text \<open>
  C6. From a complete board (81 clues), the puzzle \<open>createPuzzle\<close> returns has at most 81
  clues, at most 64 empty cells and so at least 17 clues. The bound on the empty cells holds
  after every number of passes of the removal loop (the loop cut off after any prefix of
  the positions), and a pass whose removal would leave more than 64 empty cells puts the
  value back and leaves puzzle and clue counter as they were.
\<close>

theorem createPuzzle_clue_floor:
  assumes "wfBoard sol" and "filledCells sol = 81"
  shows "filledCells (fst (createPuzzle sol difficulty rnd)) \<le> 81
       \<and> emptyCount (fst (createPuzzle sol difficulty rnd)) \<le> 64
       \<and> 17 \<le> filledCells (fst (createPuzzle sol difficulty rnd))
       \<and> (\<forall>k. emptyCount (fst (removeLoop (fst (targetClues difficulty rnd))
                  (take k (fst (shuffleArray allCells (snd (targetClues difficulty rnd)))))
                  (sol, 81))) \<le> 64)
       \<and> (\<forall>puzzle currentClues row col. 64 < emptyCount (setCell puzzle row col 0) \<longrightarrow>
             removeStep (puzzle, currentClues) (row, col) = (puzzle, currentClues))"
proof -
  have start: "emptyCount (fst (sol, 81::int)) \<le> 64"
    using emptyCount_complete [OF assms(2)] by simp
  have loop: "\<And>target positions. emptyCount (fst (removeLoop target positions (sol, 81))) \<le> 64"
    using start by (rule removeLoop_empty)
  have e: "emptyCount (fst (createPuzzle sol difficulty rnd)) \<le> 64"
    using loop by (simp add: createPuzzle_def Let_def)
  have f: "filledCells (fst (createPuzzle sol difficulty rnd)) \<le> 81
         \<and> 17 \<le> filledCells (fst (createPuzzle sol difficulty rnd))"
    using e filled_plus_empty [of "fst (createPuzzle sol difficulty rnd)"] by arith
  show ?thesis using e f loop removeStep_gate by blast
qed

theorem createPuzzle_clue_floor_witness:
  "wfBoard scenarioA
   \<and> filledCells scenarioA = 81
   \<and> filledCells (fst (createPuzzle scenarioA ''expert'' (\<lambda>k. k * 7 + 3))) \<le> 81
   \<and> emptyCount (fst (createPuzzle scenarioA ''expert'' (\<lambda>k. k * 7 + 3))) \<le> 64
   \<and> 17 \<le> filledCells (fst (createPuzzle scenarioA ''expert'' (\<lambda>k. k * 7 + 3)))
   \<and> fst (targetClues ''expert'' (\<lambda>k. k * 7 + 3)) = 20
   \<and> filledCells (fst (createPuzzle scenarioA ''expert'' (\<lambda>k. k * 7 + 3))) = 20"
proof -
  have a: "wfBoard scenarioA"
    by code_simp
  have b: "filledCells scenarioA = 81"
    by code_simp
  have c: "fst (targetClues ''expert'' (\<lambda>k. k * 7 + 3)) = 20"
    by code_simp
  have d: "filledCells (fst (createPuzzle scenarioA ''expert'' (\<lambda>k. k * 7 + 3))) = 20"
    by code_simp
  show ?thesis
    using createPuzzle_clue_floor [OF a b, of "''expert''" "\<lambda>k. k * 7 + 3"] a b c d by simp
qed

section \<open>Rejected moves\<close>

text \<open>
  C7. A call of \<open>placeNumber\<close> that is rejected returns a result object, with the reason
  'Cannot modify given numbers' on a given cell and 'Invalid move' for a value that fails
  \<open>isValidMove\<close> on a cell that is not given, and leaves the engine (grid and pencil marks)
  as it was. Every result with \<open>success = False\<close> is one of the two.
\<close>

theorem placeNumber_rejected_unchanged:
  assumes "wfEngine s" and "row < 9" and "col < 9"
  shows "(initialGrid s ! row ! col \<noteq> 0 \<longrightarrow>
            placeNumber s row col num =
              (\<lparr>success = False, error = Some ''Cannot modify given numbers''\<rparr>, s))
       \<and> (initialGrid s ! row ! col = 0 \<and> num \<noteq> 0 \<and> \<not> isValidMove s row col num \<longrightarrow>
            placeNumber s row col num = (\<lparr>success = False, error = Some ''Invalid move''\<rparr>, s))
       \<and> (\<not> success (fst (placeNumber s row col num)) \<longrightarrow>
            snd (placeNumber s row col num) = s
            \<and> grid (snd (placeNumber s row col num)) = grid s
            \<and> pencilMarks (snd (placeNumber s row col num)) = pencilMarks s
            \<and> (error (fst (placeNumber s row col num)) = Some ''Cannot modify given numbers''
               \<or> error (fst (placeNumber s row col num)) = Some ''Invalid move''))"
  by (simp add: placeNumber_def Let_def)

theorem placeNumber_rejected_unchanged_witness:
  "wfEngine sessionB
   \<and> initialGrid sessionB ! 0 ! 0 \<noteq> 0
   \<and> placeNumber sessionB 0 0 3 =
       (\<lparr>success = False, error = Some ''Cannot modify given numbers''\<rparr>, sessionB)
   \<and> initialGrid sessionB ! 8 ! 8 = 0
   \<and> \<not> isValidMove sessionB 8 8 5
   \<and> placeNumber sessionB 8 8 5 = (\<lparr>success = False, error = Some ''Invalid move''\<rparr>, sessionB)
   \<and> grid (snd (placeNumber sessionB 8 8 5)) ! 8 ! 8 = 0"
proof -
  have wf: "wfEngine sessionB"
    by code_simp
  have given: "initialGrid sessionB ! 0 ! 0 \<noteq> 0"
    by (simp add: sessionB_def scenarioB_def)
  have free: "initialGrid sessionB ! 8 ! 8 = 0"
    by (simp add: sessionB_def scenarioB_def)
  have illegal: "\<not> isValidMove sessionB 8 8 5"
    by code_simp
  have cell: "grid sessionB ! 8 ! 8 = 0"
    by (simp add: sessionB_def scenarioB_def)
  from placeNumber_rejected_unchanged [OF wf, of 0 0 3] given
  have c: "placeNumber sessionB 0 0 3 =
       (\<lparr>success = False, error = Some ''Cannot modify given numbers''\<rparr>, sessionB)"
    by simp
  from placeNumber_rejected_unchanged [OF wf, of 8 8 5] free illegal
  have d: "placeNumber sessionB 8 8 5 = (\<lparr>success = False, error = Some ''Invalid move''\<rparr>, sessionB)"
    by simp
  show ?thesis using wf given free illegal c d cell by simp
qed

section \<open>Pencil marks after a commit\<close>

text \<open>
  C8. After a successful commit of \<open>num\<close> (1 to 9) at \<open>(row, col)\<close>: that cell has no
  pencil marks; \<open>num\<close> is in no pencil-mark set of a cell of the same row, column or box;
  every set is a subset of what it was, so nothing is added; a cell outside the row, column
  and box keeps its set; and every other cell keeps its marks for digits other than \<open>num\<close>.
\<close>

theorem placeNumber_commit_marks:
  assumes "wfEngine s" and "row < 9" and "col < 9" and "1 \<le> num" and "num \<le> 9"
    and "success (fst (placeNumber s row col num))"
  shows "pencilMarks (snd (placeNumber s row col num)) ! row ! col = {}
       \<and> (\<forall>r<9. \<forall>c<9.
            (sameUnit row col r c \<longrightarrow> num \<notin> pencilMarks (snd (placeNumber s row col num)) ! r ! c)
          \<and> pencilMarks (snd (placeNumber s row col num)) ! r ! c \<subseteq> pencilMarks s ! r ! c
          \<and> (\<not> sameUnit row col r c \<longrightarrow>
                pencilMarks (snd (placeNumber s row col num)) ! r ! c = pencilMarks s ! r ! c)
          \<and> ((r, c) \<noteq> (row, col) \<longrightarrow>
                pencilMarks (snd (placeNumber s row col num)) ! r ! c - {num}
                  = pencilMarks s ! r ! c - {num}))"
proof -
  have n0: "num \<noteq> 0" using assms(4) by simp
  note nth = placeNumber_commit_nth [OF assms(1,2,3) n0 assms(6)]
  have self: "sameUnit row col row col" by (simp add: sameUnit_def)
  show ?thesis
    using nth self assms(2,3) by auto
qed

theorem placeNumber_commit_marks_witness:
  "wfEngine sessionC
   \<and> success (fst (placeNumber sessionC 8 8 9))
   \<and> pencilMarks (snd (placeNumber sessionC 8 8 9)) ! 8 ! 8 = {}
   \<and> sameUnit 8 8 8 7
   \<and> 9 \<in> pencilMarks sessionC ! 8 ! 7
   \<and> 9 \<notin> pencilMarks (snd (placeNumber sessionC 8 8 9)) ! 8 ! 7
   \<and> pencilMarks (snd (placeNumber sessionC 8 8 9)) ! 8 ! 7 - {9} = pencilMarks sessionC ! 8 ! 7 - {9}
   \<and> \<not> sameUnit 8 8 0 0
   \<and> pencilMarks (snd (placeNumber sessionC 8 8 9)) ! 0 ! 0 = pencilMarks sessionC ! 0 ! 0"
proof -
  have wf: "wfEngine sessionC"
    by code_simp
  have ok: "success (fst (placeNumber sessionC 8 8 9))"
    by code_simp
  have u1: "sameUnit 8 8 8 7" and u2: "\<not> sameUnit 8 8 0 0"
    by (simp_all add: sameUnit_def)
  have m: "9 \<in> pencilMarks sessionC ! 8 ! 7"
    by code_simp
  have n: "(8::nat) < 9" "(1::int) \<le> 9" "(9::int) \<le> 9"
    by simp_all
  note t = placeNumber_commit_marks [OF wf n(1) n(1) n(2) n(3) ok]
  have cell: "pencilMarks (snd (placeNumber sessionC 8 8 9)) ! 8 ! 8 = {}"
    using t by simp
  have peer: "9 \<notin> pencilMarks (snd (placeNumber sessionC 8 8 9)) ! 8 ! 7
      \<and> pencilMarks (snd (placeNumber sessionC 8 8 9)) ! 8 ! 7 - {9} = pencilMarks sessionC ! 8 ! 7 - {9}"
    using t [THEN conjunct2, rule_format, of 8 7] u1 by simp
  have far: "pencilMarks (snd (placeNumber sessionC 8 8 9)) ! 0 ! 0 = pencilMarks sessionC ! 0 ! 0"
    using t [THEN conjunct2, rule_format, of 0 0] u2 by simp
  show ?thesis using wf ok u1 u2 m cell peer far by simp
qed

section \<open>Hints\<close>

lemma find_filter: "find Q (filter E xs) = find (\<lambda>x. E x \<and> Q x) xs"
  by (induction xs) simp_all

lemma singleton_nth0: "length xs = 1 \<Longrightarrow> xs = [xs ! 0]"
  by (cases xs) simp_all

lemma getHint_forced:
  assumes "r0 < 9" and "c0 < 9" and "forcedCell s r0 c0"
  shows "\<exists>row col v. getHint s rnd = Inr (Some (Hint row col v ''Only one possible value''))
          \<and> row < 9 \<and> col < 9 \<and> forcedCell s row col
          \<and> getPossibleValues s row col = [v]
          \<and> (\<forall>r<9. \<forall>c<9. 9 * r + c < 9 * row + col \<longrightarrow> \<not> forcedCell s r c)"
proof -
  let ?E = "\<lambda>cell. grid s ! fst cell ! snd cell = 0"
  let ?Q = "\<lambda>cell. length (getPossibleValues s (fst cell) (snd cell)) = 1"
  let ?P = "\<lambda>cell. ?E cell \<and> ?Q cell"
  have mem: "(r0, c0) \<in> set allCells" using assms(1,2) by simp
  have "?P (r0, c0)" using assms(3) by (simp add: forcedCell_def)
  then have "find ?P allCells \<noteq> None"
    using mem by (auto simp: find_None_iff)
  then obtain cell where f: "find ?P allCells = Some cell" by auto
  then obtain i where i: "i < 81" "?P (allCells ! i)" "cell = allCells ! i"
    and before: "\<forall>j<i. \<not> ?P (allCells ! j)"
    unfolding find_Some_iff length_allCells by blast
  define row col where "row = i div 9" and "col = i mod 9"
  have cell: "cell = (row, col)" using i(1,3) by (simp add: allCells_nth row_def col_def)
  have rc: "row < 9" "col < 9" "9 * row + col = i" using i(1) by (auto simp: row_def col_def)
  have ai: "allCells ! i = (row, col)" using i(3) cell by simp
  have forced: "forcedCell s row col" using i(2) unfolding ai by (simp add: forcedCell_def)
  have "?E (r0, c0)" using assms(3) by (simp add: forcedCell_def)
  then have nonempty: "filter ?E allCells \<noteq> []"
    using mem unfolding filter_empty_conv by blast
  define v where "v = getPossibleValues s row col ! 0"
  have vals: "getPossibleValues s row col = [v]"
    unfolding v_def using forced by (intro singleton_nth0) (simp add: forcedCell_def)
  have hint: "getHint s rnd = Inr (Some (Hint row col v ''Only one possible value''))"
    using nonempty f by (simp add: getHint_def Let_def find_filter cell v_def)
  have first: "\<not> forcedCell s r c" if "r < 9" "c < 9" "9 * r + c < 9 * row + col" for r c
  proof -
    have "9 * r + c < i" using that(3) rc(3) by simp
    then have "\<not> ?P (allCells ! (9 * r + c))" using before by blast
    then show ?thesis using allCells_index [OF that(1,2)] by (simp add: forcedCell_def)
  qed
  show ?thesis using hint rc(1,2) forced vals first by blast
qed

lemma getHint_none:
  "getHint s rnd = Inr None \<longleftrightarrow> (\<forall>r<9. \<forall>c<9. grid s ! r ! c \<noteq> 0)"
proof -
  let ?E = "\<lambda>cell. grid s ! fst cell ! snd cell = 0"
  have e: "filter ?E allCells = [] \<longleftrightarrow> (\<forall>r<9. \<forall>c<9. grid s ! r ! c \<noteq> 0)"
    by (fastforce simp: filter_empty_conv set_allCells)
  have "getHint s rnd = Inr None \<longleftrightarrow> filter ?E allCells = []"
    by (auto simp: getHint_def Let_def split: option.splits)
  then show ?thesis using e by simp
qed

text \<open>
  C9. If some empty cell has exactly one possible value, \<open>getHint\<close> returns the first
  such cell in row-major order (no cell before it is empty with exactly one possible value)
  with the reason 'Only one possible value', and its value is the single element of
  \<open>getPossibleValues\<close> for that cell. \<open>getHint\<close> returns null exactly when no cell of the
  grid is empty.
\<close>

theorem getHint_forced_first_or_none:
  "((\<exists>r<9. \<exists>c<9. forcedCell s r c) \<longrightarrow>
      (\<exists>row col v. getHint s rnd = Inr (Some (Hint row col v ''Only one possible value''))
          \<and> row < 9 \<and> col < 9 \<and> forcedCell s row col
          \<and> getPossibleValues s row col = [v]
          \<and> (\<forall>r<9. \<forall>c<9. 9 * r + c < 9 * row + col \<longrightarrow> \<not> forcedCell s r c)))
   \<and> (getHint s rnd = Inr None \<longleftrightarrow> (\<forall>r<9. \<forall>c<9. grid s ! r ! c \<noteq> 0))"
  using getHint_forced [of _ _ s rnd] getHint_none [of s rnd] by blast

theorem getHint_forced_first_or_none_witness:
  "forcedCell sessionB 8 8
   \<and> (\<exists>row col v. getHint sessionB (\<lambda>k. 0) = Inr (Some (Hint row col v ''Only one possible value''))
          \<and> forcedCell sessionB row col \<and> getPossibleValues sessionB row col = [v])
   \<and> getHint sessionB (\<lambda>k. 0) = Inr (Some (Hint 8 8 9 ''Only one possible value''))
   \<and> getHint sessionA (\<lambda>k. 0) = Inr None"
proof -
  have a: "forcedCell sessionB 8 8"
    by code_simp
  then have b: "\<exists>r<9. \<exists>c<9. forcedCell sessionB r c"
    by (auto intro!: exI [of _ 8])
  have c: "getHint sessionB (\<lambda>k. 0) = Inr (Some (Hint 8 8 9 ''Only one possible value''))"
    by code_simp
  note t = getHint_forced_first_or_none [of sessionB "\<lambda>k. 0"]
  have e: "\<exists>row col v. getHint sessionB (\<lambda>k. 0) = Inr (Some (Hint row col v ''Only one possible value''))
          \<and> forcedCell sessionB row col \<and> getPossibleValues sessionB row col = [v]"
    using t b by blast
  have f: "getHint sessionA (\<lambda>k. 0) = Inr None"
    by code_simp
  show ?thesis using a c e f by blast
qed

section \<open>Filled cells carry no pencil marks\<close>

lemma filledUnmarked_iff:
  "filledUnmarked s \<longleftrightarrow> (\<forall>r<9. \<forall>c<9. grid s ! r ! c \<noteq> 0 \<longrightarrow> pencilMarks s ! r ! c = {})"
proof -
  have "(\<forall>cell\<in>set allCells. grid s ! fst cell ! snd cell = 0 \<or> pencilMarks s ! fst cell ! snd cell = {})
      \<longleftrightarrow> (\<forall>r<9. \<forall>c<9. grid s ! r ! c \<noteq> 0 \<longrightarrow> pencilMarks s ! r ! c = {})"
    by (fastforce simp: set_allCells)
  then show ?thesis by (simp add: filledUnmarked_def list_all_iff)
qed

lemma init_filledUnmarked:
  assumes "wfBoard puzzle" and "wfBoard (pencilMarks e)" and "init fuel e puzzle sol = Some (ok, s)"
  shows "wfEngine s \<and> filledUnmarked s"
proof -
  obtain sol' where s: "s = clearPencilMarks (e\<lparr>grid := puzzle, initialGrid := puzzle, solution := sol'\<rparr>)"
    using assms(3) by (auto simp: init_def split: option.splits)
  have m: "pencilMarks s = replicate 9 (replicate 9 {})"
    unfolding s using assms(2) by (simp add: clearPencilMarks_marks)
  have "wfBoard (pencilMarks s)"
    unfolding m by (simp add: wfBoard_def list_all_length)
  moreover have "grid s = puzzle" "initialGrid s = puzzle"
    unfolding s by simp_all
  ultimately show ?thesis
    using assms(1) m by (simp add: wfEngine_def filledUnmarked_iff)
qed

lemma reset_filledUnmarked:
  assumes "wfEngine s"
  shows "wfEngine (reset s) \<and> filledUnmarked (reset s)"
proof -
  have m: "pencilMarks (reset s) = replicate 9 (replicate 9 {})"
    unfolding reset_def using assms by (simp add: clearPencilMarks_marks wfEngine_def)
  have "wfBoard (pencilMarks (reset s))"
    unfolding m by (simp add: wfBoard_def list_all_length)
  moreover have "grid (reset s) = initialGrid s" "initialGrid (reset s) = initialGrid s"
    unfolding reset_def by simp_all
  ultimately show ?thesis
    using assms m by (simp add: wfEngine_def filledUnmarked_iff)
qed

lemma togglePencilMark_filledUnmarked:
  assumes "wfEngine s" and "filledUnmarked s" and "row < 9" and "col < 9"
  shows "wfEngine (snd (togglePencilMark s row col num))
       \<and> filledUnmarked (snd (togglePencilMark s row col num))"
proof -
  have wfm: "wfBoard (pencilMarks s)" using assms(1) by (simp add: wfEngine_def)
  show ?thesis
    using assms wfm
    by (auto simp: togglePencilMark_def removePencilMark_def addPencilMark_def wfEngine_def
        filledUnmarked_iff setCell_nth_wf)
qed

lemma placeNumber_filledUnmarked:
  assumes "wfEngine s" and "filledUnmarked s" and "row < 9" and "col < 9"
  shows "wfEngine (snd (placeNumber s row col num))
       \<and> filledUnmarked (snd (placeNumber s row col num))"
proof -
  have wfg: "wfBoard (grid s)" and wfm: "wfBoard (pencilMarks s)"
    using assms(1) by (simp_all add: wfEngine_def)
  consider (rejected) "snd (placeNumber s row col num) = s"
    | (cleared) "snd (placeNumber s row col num) = s\<lparr>grid := setCell (grid s) row col 0\<rparr>"
    | (commit) "num \<noteq> 0" "success (fst (placeNumber s row col num))"
        "snd (placeNumber s row col num) =
           updatePencilMarks (clearPencilMarksForCell (s\<lparr>grid := setCell (grid s) row col num\<rparr>) row col) row col num"
    by (cases "initialGrid s ! row ! col \<noteq> 0"; cases "num = 0"; cases "isValidMove s row col num")
       (simp_all add: placeNumber_def Let_def)
  then show ?thesis
  proof cases
    case rejected
    then show ?thesis using assms by simp
  next
    case cleared
    then show ?thesis
      using assms wfg by (auto simp: wfEngine_def filledUnmarked_iff setCell_nth_wf)
  next
    case commit
    have wf': "wfEngine (snd (placeNumber s row col num))"
      unfolding commit(3) using assms(1) by (simp add: wfEngine_def clearPencilMarksForCell_def)
    have g: "grid (snd (placeNumber s row col num)) = setCell (grid s) row col num"
      unfolding commit(3) by (simp add: clearPencilMarksForCell_def)
    have "pencilMarks (snd (placeNumber s row col num)) ! r ! c = {}"
      if "r < 9" "c < 9" "grid (snd (placeNumber s row col num)) ! r ! c \<noteq> 0" for r c
    proof (cases "r = row \<and> c = col")
      case True
      then show ?thesis
        using placeNumber_commit_nth [OF assms(1,3,4) commit(1,2) that(1,2)] by simp
    next
      case False
      then have "grid s ! r ! c \<noteq> 0"
        using that wfg assms(3,4) by (auto simp: g setCell_nth_wf)
      then have "pencilMarks s ! r ! c = {}"
        using assms(2) that(1,2) by (simp add: filledUnmarked_iff)
      then show ?thesis
        using placeNumber_commit_nth [OF assms(1,3,4) commit(1,2) that(1,2)] by simp
    qed
    then show ?thesis using wf' by (simp add: filledUnmarked_iff)
  qed
qed

lemma applyOp_filledUnmarked:
  assumes "wfEngine s" and "filledUnmarked s" and "inRange x"
  shows "wfEngine (applyOp s x) \<and> filledUnmarked (applyOp s x)"
  using assms
  by (cases x) (simp_all add: placeNumber_filledUnmarked togglePencilMark_filledUnmarked
      reset_filledUnmarked)

lemma run_filledUnmarked:
  assumes "wfEngine s" and "filledUnmarked s" and "list_all inRange ops"
  shows "wfEngine (foldl applyOp s ops) \<and> filledUnmarked (foldl applyOp s ops)"
  using assms
proof (induction ops arbitrary: s)
  case Nil
  then show ?case by simp
next
  case (Cons x ops)
  have "wfEngine (applyOp s x) \<and> filledUnmarked (applyOp s x)"
    using Cons.prems by (simp add: applyOp_filledUnmarked)
  then show ?case using Cons.IH [of "applyOp s x"] Cons.prems(3) by simp
qed

text \<open>
  C10. In every state reached from \<open>init\<close> (on a 9 by 9 puzzle, with or without a
  solution) by any sequence of \<open>placeNumber\<close>, \<open>togglePencilMark\<close> and \<open>reset\<close> calls on
  cells of the board, a cell that holds a value has no pencil marks.
\<close>

theorem reachable_filled_cells_unmarked:
  assumes "wfBoard puzzle" and "wfBoard (pencilMarks e)"
    and "init fuel e puzzle sol = Some (ok, s0)"
    and "list_all inRange ops"
    and "row < 9" and "col < 9"
    and "grid (foldl applyOp s0 ops) ! row ! col \<noteq> 0"
  shows "pencilMarks (foldl applyOp s0 ops) ! row ! col = {}"
proof -
  have "wfEngine s0 \<and> filledUnmarked s0"
    using assms(1,2,3) by (rule init_filledUnmarked)
  then have "filledUnmarked (foldl applyOp s0 ops)"
    using assms(4) by (simp add: run_filledUnmarked)
  then show ?thesis
    using assms(5,6,7) by (simp add: filledUnmarked_iff)
qed

theorem reachable_filled_cells_unmarked_witness:
  "wfBoard scenarioC
   \<and> wfBoard (pencilMarks newEngine)
   \<and> init 0 newEngine scenarioC (Some scenarioA) = Some (True, sessionC0)
   \<and> list_all inRange playC
   \<and> grid (foldl applyOp sessionC0 playC) ! 8 ! 7 = 7
   \<and> pencilMarks (foldl applyOp sessionC0 playC) ! 8 ! 7 = {}
   \<and> pencilMarks (foldl applyOp sessionC0 playC) ! 0 ! 0 = {5}"
proof -
  have a: "wfBoard scenarioC" and b: "wfBoard (pencilMarks newEngine)"
    by code_simp+
  have c: "init 0 newEngine scenarioC (Some scenarioA) = Some (True, sessionC0)"
    by code_simp
  have d: "list_all inRange playC"
    by code_simp
  have e: "grid (foldl applyOp sessionC0 playC) ! 8 ! 7 = 7"
    by code_simp
  have f: "pencilMarks (foldl applyOp sessionC0 playC) ! 0 ! 0 = {5}"
    by code_simp
  have "pencilMarks (foldl applyOp sessionC0 playC) ! 8 ! 7 = {}"
    using reachable_filled_cells_unmarked [OF a b c d, of 8 7] e by simp
  then show ?thesis using a b c d e f by simp
qed


end
